theory Spec2Isabelle
  imports Main "HOL-Library.Word" "HOL-Library.AList"
begin

section \<open>Errors, alerts and the notification context\<close>

text \<open>
  Go errors as values. \<open>New\<close> stands for \<open>errors.New\<close> and \<open>errors.Errorf\<close> (the
  formatted text), \<open>Wrapf cause msg\<close> for \<open>errors.Wrapf(cause, msg)\<close>, and
  \<open>MultiError\<close> for \<open>types.MultiError\<close>. A nil error is \<open>None\<close> of \<open>error option\<close>.
\<close>

datatype error = New string | Wrapf error string | MultiError "error list"

datatype AlertStatus = AlertFiring | AlertResolved

text \<open>
  Modelled from the spec: \<open>types.Alert\<close> is declared outside \<open>src/\<close>. The spec lists the
  attributes the pipeline reads: the label set, \<open>Status()\<close> (firing or resolved), the opaque
  \<open>Stage\<close> and \<open>RuleUID\<close> strings and the mutable \<open>SentCount\<close>. The status an alert reports
  during one execution is the field \<open>Status\<close>; the comparison of \<open>EndsAt\<close> with the wall
  clock that produces it is not part of the model.
\<close>

record Alert =
  Labels :: "(string \<times> string) list"
  Status :: AlertStatus
  Stage :: string
  RuleUID :: string
  SentCount :: int

definition Resolved :: "Alert \<Rightarrow> bool" where
  "Resolved a = (Status a = AlertResolved)"

text \<open>
  The context is a bag of values under the private keys \<open>keyReceiverName\<close> ...
  \<open>keyRuleUID\<close>; a key that was never set is \<open>None\<close>. Times and durations are
  integers (nanoseconds), alert hashes are 64-bit words.
\<close>

record Context =
  keyReceiverName :: "string option"
  keyRepeatInterval :: "int option"
  keyGroupLabels :: "(string \<times> string) list option"
  keyGroupKey :: "string option"
  keyFiringAlerts :: "64 word list option"
  keyResolvedAlerts :: "64 word list option"
  keyNow :: "int option"
  keyMuteTimeIntervals :: "string list option"
  keyActiveTimeIntervals :: "string list option"
  keyRuleUID :: "string option"

definition background :: Context where
  "background = \<lparr> keyReceiverName = None, keyRepeatInterval = None, keyGroupLabels = None,
     keyGroupKey = None, keyFiringAlerts = None, keyResolvedAlerts = None, keyNow = None,
     keyMuteTimeIntervals = None, keyActiveTimeIntervals = None, keyRuleUID = None \<rparr>"

definition WithRuleUID :: "Context \<Rightarrow> string \<Rightarrow> Context" where
  "WithRuleUID ctx uid = ctx\<lparr>keyRuleUID := Some uid\<rparr>"

definition WithReceiverName :: "Context \<Rightarrow> string \<Rightarrow> Context" where
  "WithReceiverName ctx rcv = ctx\<lparr>keyReceiverName := Some rcv\<rparr>"

definition WithGroupKey :: "Context \<Rightarrow> string \<Rightarrow> Context" where
  "WithGroupKey ctx s = ctx\<lparr>keyGroupKey := Some s\<rparr>"

definition WithFiringAlerts :: "Context \<Rightarrow> 64 word list \<Rightarrow> Context" where
  "WithFiringAlerts ctx alerts = ctx\<lparr>keyFiringAlerts := Some alerts\<rparr>"

definition WithResolvedAlerts :: "Context \<Rightarrow> 64 word list \<Rightarrow> Context" where
  "WithResolvedAlerts ctx alerts = ctx\<lparr>keyResolvedAlerts := Some alerts\<rparr>"

definition WithNow :: "Context \<Rightarrow> int \<Rightarrow> Context" where
  "WithNow ctx t = ctx\<lparr>keyNow := Some t\<rparr>"

definition WithRepeatInterval :: "Context \<Rightarrow> int \<Rightarrow> Context" where
  "WithRepeatInterval ctx t = ctx\<lparr>keyRepeatInterval := Some t\<rparr>"

definition WithMuteTimeIntervals :: "Context \<Rightarrow> string list \<Rightarrow> Context" where
  "WithMuteTimeIntervals ctx mt = ctx\<lparr>keyMuteTimeIntervals := Some mt\<rparr>"

definition WithActiveTimeIntervals :: "Context \<Rightarrow> string list \<Rightarrow> Context" where
  "WithActiveTimeIntervals ctx at = ctx\<lparr>keyActiveTimeIntervals := Some at\<rparr>"

text \<open>The accessors return \<open>(v, ok)\<close> in the source; here \<open>Some v\<close> is \<open>ok\<close>.\<close>

definition RepeatInterval :: "Context \<Rightarrow> int option" where
  "RepeatInterval ctx = keyRepeatInterval ctx"

definition ReceiverName :: "Context \<Rightarrow> string option" where
  "ReceiverName ctx = keyReceiverName ctx"

definition GroupKey :: "Context \<Rightarrow> string option" where
  "GroupKey ctx = keyGroupKey ctx"

definition Now :: "Context \<Rightarrow> int option" where
  "Now ctx = keyNow ctx"

definition FiringAlerts :: "Context \<Rightarrow> 64 word list option" where
  "FiringAlerts ctx = keyFiringAlerts ctx"

definition ResolvedAlerts :: "Context \<Rightarrow> 64 word list option" where
  "ResolvedAlerts ctx = keyResolvedAlerts ctx"

definition MuteTimeIntervalNames :: "Context \<Rightarrow> string list option" where
  "MuteTimeIntervalNames ctx = keyMuteTimeIntervals ctx"

definition ActiveTimeIntervalNames :: "Context \<Rightarrow> string list option" where
  "ActiveTimeIntervalNames ctx = keyActiveTimeIntervals ctx"

section \<open>Stages and their composition\<close>

text \<open>
  A stage maps a context and a batch to a context, a batch and an error. What a stage
  does to the outside (the key-value store, the integrations) is threaded as a world
  \<open>'w\<close>; a stage that does not return yields \<open>None\<close>. A nil slice and an empty slice are
  both \<open>[]\<close>: the source only ever takes their length.
\<close>

type_synonym result = "Context \<times> Alert list \<times> error option"

type_synonym 'w Stage = "Context \<Rightarrow> Alert list \<Rightarrow> 'w \<Rightarrow> (result \<times> 'w) option"

text \<open>\<open>MultiStage.Exec\<close>: the stages in order, leaving early on an empty batch or an error.\<close>

fun MultiStage_Exec :: "'w Stage list \<Rightarrow> 'w Stage" where
  "MultiStage_Exec [] ctx alerts w = Some ((ctx, alerts, None), w)"
| "MultiStage_Exec (s # ms) ctx alerts w =
     (if length alerts = 0 then Some ((ctx, [], None), w)
      else case s ctx alerts w of
             None \<Rightarrow> None
           | Some ((ctx', alerts', err), w') \<Rightarrow>
               (case err of
                  Some e \<Rightarrow> Some ((ctx', [], Some e), w')
                | None \<Rightarrow> MultiStage_Exec ms ctx' alerts' w'))"

text \<open>
  \<open>FanoutStage.Exec\<close> starts one goroutine per substage on the same context and batch,
  keeps only the errors, and waits for all of them. The substages run here one after the
  other in list order; another interleaving permutes the collected errors. The returned
  batch is the local \<open>as\<close>, which the source declares and never assigns.
\<close>

fun fanout_collect :: "'w Stage list \<Rightarrow> Context \<Rightarrow> Alert list \<Rightarrow> error list \<Rightarrow> 'w
    \<Rightarrow> (error list \<times> 'w) option" where
  "fanout_collect [] ctx alerts me w = Some (me, w)"
| "fanout_collect (s # fs) ctx alerts me w =
     (case s ctx alerts w of
        None \<Rightarrow> None
      | Some ((_, _, err), w') \<Rightarrow>
          fanout_collect fs ctx alerts (case err of None \<Rightarrow> me | Some e \<Rightarrow> me @ [e]) w')"

definition FanoutStage_Exec :: "'w Stage list \<Rightarrow> 'w Stage" where
  "FanoutStage_Exec fs ctx alerts w =
     (let as = [] in
      case fanout_collect fs ctx alerts [] w of
        None \<Rightarrow> None
      | Some (me, w') \<Rightarrow>
          if length me > 0 then Some ((ctx, as, Some (MultiError me)), w')
          else Some ((ctx, as, None), w'))"

section \<open>Time-based muting\<close>

text \<open>
  A \<open>timeinterval.TimeInterval\<close> is used only through \<open>ContainsTime\<close>, so it is the
  predicate itself; \<open>now.UTC()\<close> is the same instant.
\<close>

type_synonym TimeInterval = "int \<Rightarrow> bool"

definition missing_interval :: "string \<Rightarrow> error" where
  "missing_interval name =
     New (''time interval '' @ name @ '' doesn'' @ [CHR 0x27] @ ''t exist in config'')"

fun inTimeIntervals :: "int \<Rightarrow> (string \<rightharpoonup> TimeInterval list) \<Rightarrow> string list \<Rightarrow> error + bool" where
  "inTimeIntervals now intervals [] = Inr False"
| "inTimeIntervals now intervals (name # intervalNames) =
     (case intervals name of
        None \<Rightarrow> Inl (missing_interval name)
      | Some interval \<Rightarrow>
          if list_ex (\<lambda>ti. ti now) interval then Inr True
          else inTimeIntervals now intervals intervalNames)"

definition TimeMuteStage_Exec :: "(string \<rightharpoonup> TimeInterval list) \<Rightarrow> Context \<Rightarrow> Alert list \<Rightarrow> result" where
  "TimeMuteStage_Exec Times ctx alerts =
     (case MuteTimeIntervalNames ctx of
        None \<Rightarrow> (ctx, alerts, None)
      | Some muteTimeIntervalNames \<Rightarrow>
          (case Now ctx of
             None \<Rightarrow> (ctx, alerts, Some (New ''missing now timestamp''))
           | Some now \<Rightarrow>
               (case inTimeIntervals now Times muteTimeIntervalNames of
                  Inl err \<Rightarrow> (ctx, alerts, Some err)
                | Inr muted \<Rightarrow> if muted then (ctx, [], None) else (ctx, alerts, None))))"

definition TimeActiveStage_Exec :: "(string \<rightharpoonup> TimeInterval list) \<Rightarrow> Context \<Rightarrow> Alert list \<Rightarrow> result" where
  "TimeActiveStage_Exec Times ctx alerts =
     (case ActiveTimeIntervalNames ctx of
        None \<Rightarrow> (ctx, alerts, None)
      | Some activeTimeIntervalNames \<Rightarrow>
          if length activeTimeIntervalNames = 0 then (ctx, alerts, None)
          else
            (case Now ctx of
               None \<Rightarrow> (ctx, alerts, Some (New ''missing now timestamp''))
             | Some now \<Rightarrow>
                 (case inTimeIntervals now Times activeTimeIntervalNames of
                    Inl err \<Rightarrow> (ctx, alerts, Some err)
                  | Inr active \<Rightarrow> if \<not> active then (ctx, [], None) else (ctx, alerts, None))))"

text \<open>A stage without effects, as a \<open>Stage\<close>.\<close>

definition pure_stage :: "(Context \<Rightarrow> Alert list \<Rightarrow> result) \<Rightarrow> 'w Stage" where
  "pure_stage f ctx alerts w = Some (f ctx alerts, w)"

section \<open>The key-value store\<close>

text \<open>
  \<open>DedupStage\<close> talks to the store through the interface \<open>redis.Cmdable\<close>. The five
  commands it issues are the fields of \<open>Cmdable\<close>, over a store state \<open>'s\<close>; each returns
  its reply, which may be an error, and the next store state.
\<close>

record 's Cmdable =
  Exists :: "string \<Rightarrow> 's \<Rightarrow> (error + int) \<times> 's"
  Get :: "string \<Rightarrow> 's \<Rightarrow> (error + string) \<times> 's"
  Del :: "string list \<Rightarrow> 's \<Rightarrow> (error + int) \<times> 's"
  SetNX :: "string \<Rightarrow> string \<Rightarrow> int \<Rightarrow> 's \<Rightarrow> (error + bool) \<times> 's"
  Incr :: "string \<Rightarrow> 's \<Rightarrow> (error + int) \<times> 's"

text \<open>
  Every command sent is recorded with its reply, so that what a stage did to the store
  can be stated without looking inside the store.
\<close>

datatype cmd =
    CmdExists string
  | CmdGet string
  | CmdDel "string list"
  | CmdSetNX string string int
  | CmdIncr string

datatype reply = ReplyErr error | ReplyInt int | ReplyStr string | ReplyBool bool

type_synonym 's conn = "'s \<times> (cmd \<times> reply) list"

definition int_reply :: "error + int \<Rightarrow> reply" where
  "int_reply r = (case r of Inl e \<Rightarrow> ReplyErr e | Inr n \<Rightarrow> ReplyInt n)"

definition str_reply :: "error + string \<Rightarrow> reply" where
  "str_reply r = (case r of Inl e \<Rightarrow> ReplyErr e | Inr v \<Rightarrow> ReplyStr v)"

definition bool_reply :: "error + bool \<Rightarrow> reply" where
  "bool_reply r = (case r of Inl e \<Rightarrow> ReplyErr e | Inr b \<Rightarrow> ReplyBool b)"

definition send_Exists :: "'s Cmdable \<Rightarrow> string \<Rightarrow> 's conn \<Rightarrow> (error + int) \<times> 's conn" where
  "send_Exists r k c =
     (case Exists r k (fst c) of (res, s') \<Rightarrow> (res, (s', snd c @ [(CmdExists k, int_reply res)])))"

definition send_Get :: "'s Cmdable \<Rightarrow> string \<Rightarrow> 's conn \<Rightarrow> (error + string) \<times> 's conn" where
  "send_Get r k c =
     (case Get r k (fst c) of (res, s') \<Rightarrow> (res, (s', snd c @ [(CmdGet k, str_reply res)])))"

definition send_Del :: "'s Cmdable \<Rightarrow> string list \<Rightarrow> 's conn \<Rightarrow> (error + int) \<times> 's conn" where
  "send_Del r ks c =
     (case Del r ks (fst c) of (res, s') \<Rightarrow> (res, (s', snd c @ [(CmdDel ks, int_reply res)])))"

definition send_SetNX :: "'s Cmdable \<Rightarrow> string \<Rightarrow> string \<Rightarrow> int \<Rightarrow> 's conn
    \<Rightarrow> (error + bool) \<times> 's conn" where
  "send_SetNX r k v ttl c =
     (case SetNX r k v ttl (fst c) of
        (res, s') \<Rightarrow> (res, (s', snd c @ [(CmdSetNX k v ttl, bool_reply res)])))"

definition send_Incr :: "'s Cmdable \<Rightarrow> string \<Rightarrow> 's conn \<Rightarrow> (error + int) \<times> 's conn" where
  "send_Incr r k c =
     (case Incr r k (fst c) of (res, s') \<Rightarrow> (res, (s', snd c @ [(CmdIncr k, int_reply res)])))"

subsection \<open>Decimal text\<close>

text \<open>\<open>%d\<close> of \<open>fmt.Sprintf\<close> on an unsigned value.\<close>

definition digit :: "nat \<Rightarrow> char" where
  "digit d = ''0123456789'' ! d"

function dec :: "nat \<Rightarrow> string" where
  "dec n = (if n < 10 then [digit n] else dec (n div 10) @ [digit (n mod 10)])"
  by pat_completeness auto
termination
  by (relation "measure id") auto

declare dec.simps [simp del]

definition dec_int :: "int \<Rightarrow> string" where
  "dec_int i = (if i < 0 then CHR ''-'' # dec (nat (- i)) else dec (nat i))"

text \<open>
  \<open>StringCmd.Int64\<close> hands the reply text to \<open>strconv.ParseInt(s, 10, 64)\<close>: an optional
  sign, then one decimal digit or more, within the range of \<open>int64\<close>.
\<close>

definition digit_of :: "char \<Rightarrow> nat option" where
  "digit_of c = (let n = (of_char c :: nat) in if 48 \<le> n \<and> n \<le> 57 then Some (n - 48) else None)"

fun digits_value :: "string \<Rightarrow> nat \<Rightarrow> nat option" where
  "digits_value [] acc = Some acc"
| "digits_value (c # cs) acc =
     (case digit_of c of None \<Rightarrow> None | Some d \<Rightarrow> digits_value cs (10 * acc + d))"

definition ParseInt :: "string \<Rightarrow> error + int" where
  "ParseInt s =
     (let neg = (s \<noteq> [] \<and> hd s = CHR ''-'');
          ds = (if s \<noteq> [] \<and> (hd s = CHR ''-'' \<or> hd s = CHR ''+'') then tl s else s)
      in if ds = [] then Inl (New ''strconv.ParseInt: invalid syntax'')
         else case digits_value ds 0 of
                None \<Rightarrow> Inl (New ''strconv.ParseInt: invalid syntax'')
              | Some n \<Rightarrow>
                  if neg then (if n \<le> 2 ^ 63 then Inr (- int n)
                               else Inl (New ''strconv.ParseInt: value out of range''))
                  else (if n < 2 ^ 63 then Inr (int n)
                        else Inl (New ''strconv.ParseInt: value out of range'')))"

definition Int64 :: "error + string \<Rightarrow> error + int" where
  "Int64 r = (case r of Inl e \<Rightarrow> Inl e | Inr v \<Rightarrow> ParseInt v)"

section \<open>DedupStage\<close>

record Receiver =
  GroupName :: string
  Integration :: string
  Idx :: "32 word"

definition AlertSentPrefix :: string where
  "AlertSentPrefix = ''alert-sent-''"

definition receiverKey :: "Receiver \<Rightarrow> string" where
  "receiverKey r = GroupName r @ '':'' @ Integration r @ '':'' @ dec (unat (Idx r))"

definition stateKey :: "string \<Rightarrow> Receiver \<Rightarrow> 64 word \<Rightarrow> string" where
  "stateKey k r h = k @ '':'' @ receiverKey r @ '':'' @ dec (unat h)"

text \<open>
  The fields of the stage that \<open>Exec\<close> reads: the receiver, the store client and the hash
  function (\<open>hashAlert\<close> in \<open>NewDedupStage\<close>).
\<close>

record 's DedupStage =
  recv :: Receiver
  rdb :: "'s Cmdable"
  hash :: "Alert \<Rightarrow> 64 word"

text \<open>The variables the loop of \<open>Exec\<close> updates.\<close>

record dedup_vars =
  v_ctx :: Context
  v_firing :: "64 word list"
  v_resolved :: "64 word list"
  v_needsUpdateAlerts :: "Alert list"

text \<open>
  One pass of the loop body for the alert \<open>a\<close>. The two \<open>continue\<close> statements leave the
  pass before \<open>WithRuleUID\<close>. The alert is a pointer in the source and \<open>SentCount\<close> is
  written through it; only alerts that are then appended to \<open>needsUpdateAlerts\<close> are
  written, so the appended record carries the write.
\<close>

definition dedup_resolved :: "'s DedupStage \<Rightarrow> string \<Rightarrow> Alert \<Rightarrow> dedup_vars \<Rightarrow> 's conn
    \<Rightarrow> dedup_vars \<times> 's conn" where
  "dedup_resolved n sKey a v c =
     (let v1 = v\<lparr>v_resolved := v_resolved v @ [hash n a]\<rparr> in
      case send_Exists (rdb n) sKey c of
        (Inl err, c1) \<Rightarrow> (v1, c1)
      | (Inr exist, c1) \<Rightarrow>
          if exist = 1 then
            (case send_Get (rdb n) (AlertSentPrefix @ sKey) c1 of
               (r, c2) \<Rightarrow>
                 let a' = (case Int64 r of Inr count \<Rightarrow> a\<lparr>SentCount := count\<rparr> | Inl err \<Rightarrow> a)
                 in (v1\<lparr>v_needsUpdateAlerts := v_needsUpdateAlerts v1 @ [a'],
                        v_ctx := WithRuleUID (v_ctx v1) (RuleUID a)\<rparr>, c2))
          else (v1\<lparr>v_ctx := WithRuleUID (v_ctx v1) (RuleUID a)\<rparr>, c1))"

definition dedup_firing :: "'s DedupStage \<Rightarrow> string \<Rightarrow> int \<Rightarrow> Alert \<Rightarrow> dedup_vars \<Rightarrow> 's conn
    \<Rightarrow> dedup_vars \<times> 's conn" where
  "dedup_firing n sKey repeatInterval a v c =
     (case send_Get (rdb n) sKey c of
        (r, c1) \<Rightarrow>
          let stage = (case r of Inl err \<Rightarrow> Stage a | Inr s \<Rightarrow> s);
              c2 = (if stage \<noteq> [] \<and> stage \<noteq> Stage a then snd (send_Del (rdb n) [sKey] c1) else c1)
          in case send_SetNX (rdb n) sKey (Stage a) repeatInterval c2 of
               (Inl err, c3) \<Rightarrow> (v, c3)
             | (Inr needsUpdate, c3) \<Rightarrow>
                 if needsUpdate then
                   (case send_Incr (rdb n) (AlertSentPrefix @ sKey) c3 of
                      (ri, c4) \<Rightarrow>
                        let a' = (case ri of Inr count \<Rightarrow> a\<lparr>SentCount := count\<rparr> | Inl err \<Rightarrow> a)
                        in (v\<lparr>v_firing := v_firing v @ [hash n a],
                              v_needsUpdateAlerts := v_needsUpdateAlerts v @ [a'],
                              v_ctx := WithRuleUID (v_ctx v) (RuleUID a)\<rparr>, c4))
                 else (v\<lparr>v_ctx := WithRuleUID (v_ctx v) (RuleUID a)\<rparr>, c3))"

definition dedup_alert :: "'s DedupStage \<Rightarrow> string \<Rightarrow> int \<Rightarrow> Alert \<Rightarrow> dedup_vars \<Rightarrow> 's conn
    \<Rightarrow> dedup_vars \<times> 's conn" where
  "dedup_alert n gkey repeatInterval a v c =
     (let sKey = stateKey gkey (recv n) (hash n a) in
      if Resolved a then dedup_resolved n sKey a v c
      else dedup_firing n sKey repeatInterval a v c)"

fun dedup_loop :: "'s DedupStage \<Rightarrow> string \<Rightarrow> int \<Rightarrow> Alert list \<Rightarrow> dedup_vars \<Rightarrow> 's conn
    \<Rightarrow> dedup_vars \<times> 's conn" where
  "dedup_loop n gkey repeatInterval [] v c = (v, c)"
| "dedup_loop n gkey repeatInterval (a # alerts) v c =
     (case dedup_alert n gkey repeatInterval a v c of
        (v', c') \<Rightarrow> dedup_loop n gkey repeatInterval alerts v' c')"

definition DedupStage_Exec :: "'s DedupStage \<Rightarrow> Context \<Rightarrow> Alert list \<Rightarrow> 's conn
    \<Rightarrow> result \<times> 's conn" where
  "DedupStage_Exec n ctx alerts c =
     (case GroupKey ctx of
        None \<Rightarrow> ((ctx, [], Some (New ''group key missing'')), c)
      | Some gkey \<Rightarrow>
          (case RepeatInterval ctx of
             None \<Rightarrow> ((ctx, [], Some (New ''repeat interval missing'')), c)
           | Some repeatInterval \<Rightarrow>
               (case dedup_loop n gkey repeatInterval alerts
                       \<lparr>v_ctx = ctx, v_firing = [], v_resolved = [], v_needsUpdateAlerts = []\<rparr> c of
                  (v, c') \<Rightarrow>
                    ((WithResolvedAlerts (WithFiringAlerts (v_ctx v) (v_firing v)) (v_resolved v),
                      v_needsUpdateAlerts v, None), c'))))"

text \<open>The commands a stage sent between two states of the connection, with their replies.\<close>

definition new_log :: "'s conn \<Rightarrow> 's conn \<Rightarrow> (cmd \<times> reply) list" where
  "new_log c c' = drop (length (snd c)) (snd c')"

text \<open>The first command the loop of \<open>DedupStage.Exec\<close> sends for an alert.\<close>

definition first_cmd :: "'s DedupStage \<Rightarrow> string \<Rightarrow> Alert \<Rightarrow> cmd" where
  "first_cmd n gkey a =
     (if Resolved a then CmdExists (stateKey gkey (recv n) (hash n a))
      else CmdGet (stateKey gkey (recv n) (hash n a)))"

subsection \<open>A store to run the stage against\<close>

text \<open>
  The store behind the client is outside the repository. To evaluate scenarios, a store
  that holds string keys in memory and answers as a Redis server does while no key
  expires and no command fails in transit: \<open>GET\<close> of an absent key is the error
  \<open>redis.Nil\<close>, \<open>SET NX\<close> writes only an absent key, \<open>INCR\<close> treats an absent key as 0
  and rejects a value that is not the decimal text of an \<open>int64\<close>.
\<close>

type_synonym mem = "(string \<times> string) list"

definition redis_Nil :: error where
  "redis_Nil = New ''redis: nil''"

definition mem_Exists :: "string \<Rightarrow> mem \<Rightarrow> (error + int) \<times> mem" where
  "mem_Exists k m = (Inr (if map_of m k = None then 0 else 1), m)"

definition mem_Get :: "string \<Rightarrow> mem \<Rightarrow> (error + string) \<times> mem" where
  "mem_Get k m = (case map_of m k of None \<Rightarrow> (Inl redis_Nil, m) | Some v \<Rightarrow> (Inr v, m))"

definition mem_Del :: "string list \<Rightarrow> mem \<Rightarrow> (error + int) \<times> mem" where
  "mem_Del ks m =
     (Inr (int (length (filter (\<lambda>k. map_of m k \<noteq> None) (remdups ks)))), fold AList.delete ks m)"

definition mem_SetNX :: "string \<Rightarrow> string \<Rightarrow> int \<Rightarrow> mem \<Rightarrow> (error + bool) \<times> mem" where
  "mem_SetNX k v ttl m =
     (case map_of m k of None \<Rightarrow> (Inr True, AList.update k v m) | Some old \<Rightarrow> (Inr False, m))"

definition mem_Incr :: "string \<Rightarrow> mem \<Rightarrow> (error + int) \<times> mem" where
  "mem_Incr k m =
     (case map_of m k of
        None \<Rightarrow> (Inr 1, AList.update k (dec_int 1) m)
      | Some v \<Rightarrow>
          (case ParseInt v of
             Inl err \<Rightarrow> (Inl (New ''ERR value is not an integer or out of range''), m)
           | Inr i \<Rightarrow>
               if dec_int i \<noteq> v \<or> i \<ge> 2 ^ 63 - 1
               then (Inl (New ''ERR value is not an integer or out of range''), m)
               else (Inr (i + 1), AList.update k (dec_int (i + 1)) m)))"

definition mem_rdb :: "mem Cmdable" where
  "mem_rdb = \<lparr> Exists = mem_Exists, Get = mem_Get, Del = mem_Del, SetNX = mem_SetNX,
     Incr = mem_Incr \<rparr>"

text \<open>A client over the same store whose \<open>GET\<close> and \<open>INCR\<close> time out.\<close>

definition flaky_rdb :: "mem Cmdable" where
  "flaky_rdb = mem_rdb \<lparr> Get := (\<lambda>k m. (Inl (New ''i/o timeout''), m)),
     Incr := (\<lambda>k m. (Inl (New ''i/o timeout''), m)) \<rparr>"

section \<open>RetryStage\<close>

text \<open>
  The fields of \<open>Integration\<close> that the stage reads: the policy \<open>rs.SendResolved()\<close>, the
  name and the index. What the wrapped notifier answers is part of the schedule below.
\<close>

record Integration =
  i_rs :: bool
  i_name :: string
  i_idx :: int

definition SendResolved :: "Integration \<Rightarrow> bool" where
  "SendResolved i = i_rs i"

definition String :: "Integration \<Rightarrow> string" where
  "String i = i_name i @ ''['' @ dec_int (i_idx i) @ '']''"

record RetryStage =
  integration :: Integration
  groupName :: string

text \<open>\<open>err.Error()\<close>: the text of an error, a wrapped one as \<open>msg: cause\<close>.\<close>

fun Error :: "error \<Rightarrow> string" where
  "Error (New s) = s"
| "Error (Wrapf e msg) = msg @ '': '' @ Error e"
| "Error (MultiError es) = concat (map (\<lambda>e. Error e @ ''; '') es)"

definition canceled_msg :: "RetryStage \<Rightarrow> nat \<Rightarrow> string" where
  "canceled_msg r i = groupName r @ ''/'' @ String (integration r)
     @ '': notify retry canceled after '' @ dec i @ '' attempts''"

definition unrecoverable_msg :: "RetryStage \<Rightarrow> nat \<Rightarrow> string" where
  "unrecoverable_msg r i = groupName r @ ''/'' @ String (integration r)
     @ '': notify retry canceled due to unrecoverable error after '' @ dec i @ '' attempts''"

text \<open>
  What the loop of \<open>exec\<close> meets in one iteration is decided outside it: whether the
  context is done when the first, non-blocking \<open>select\<close> looks (\<open>DoneAtCheck\<close>); if it
  is not, which case of the second, blocking \<open>select\<close> is taken, \<open>ctx.Done()\<close>
  (\<open>DoneAtWait\<close>) or the ticker; and for a tick, what \<open>Notify\<close> returns
  (\<open>retry\<close>, \<open>err\<close>) and whether the context is done by the time it has returned
  (\<open>ctx.Err() \<noteq> nil\<close>). The blocking \<open>select\<close> may take the tick although the
  context became done after the check: that is a \<open>Tick\<close> whose last field is true.
  A schedule lists this for the successive iterations.
\<close>

datatype step = DoneAtCheck | DoneAtWait | Tick bool "error option" bool

text \<open>What the loop does, in order: the checks, the receptions, the calls, the warnings.\<close>

datatype event =
    EvCheck bool
  | EvTick
  | EvDone
  | EvNotify "Alert list"
  | EvWarn nat error

text \<open>
  The loop of \<open>exec\<close> from its \<open>i\<close>-th completed iteration on, with \<open>iErr\<close> the last error
  seen and \<open>cerr\<close> what \<open>ctx.Err()\<close> returns once the context is done. When the schedule
  ends before the loop returns, the loop is still waiting: the result is \<open>None\<close>.
\<close>

fun retry_loop :: "RetryStage \<Rightarrow> Context \<Rightarrow> Alert list \<Rightarrow> Alert list \<Rightarrow> error \<Rightarrow> nat
    \<Rightarrow> error option \<Rightarrow> step list \<Rightarrow> result option \<times> event list" where
  "retry_loop r ctx alerts sent cerr i iErr [] = (None, [])"
| "retry_loop r ctx alerts sent cerr i iErr (DoneAtCheck # sched) =
     (Some (ctx, [], Some (Wrapf (case iErr of None \<Rightarrow> cerr | Some e \<Rightarrow> e) (canceled_msg r (i + 1)))),
      [EvCheck True])"
| "retry_loop r ctx alerts sent cerr i iErr (DoneAtWait # sched) =
     (Some (ctx, [], Some (Wrapf (case iErr of None \<Rightarrow> cerr | Some e \<Rightarrow> e) (canceled_msg r (i + 1)))),
      [EvCheck False, EvDone])"
| "retry_loop r ctx alerts sent cerr i iErr (Tick retry err done_after # sched) =
     (case err of
        Some e \<Rightarrow>
          if \<not> retry then
            (Some (ctx, alerts, Some (Wrapf e (unrecoverable_msg r (i + 1)))),
             [EvCheck False, EvTick, EvNotify sent])
          else
            (case retry_loop r ctx alerts sent cerr (i + 1) (Some e) sched of
               (res, evs) \<Rightarrow>
                 (res, [EvCheck False, EvTick, EvNotify sent]
                       @ (if \<not> done_after
                             \<and> (case iErr of None \<Rightarrow> True | Some p \<Rightarrow> Error e \<noteq> Error p)
                          then [EvWarn (i + 1) e] else [])
                       @ evs))
      | None \<Rightarrow> (Some (ctx, alerts, None), [EvCheck False, EvTick, EvNotify sent]))"

text \<open>
  \<open>RetryStage.exec\<close>. The counters, the latency histogram and the report slot of the
  integration are not modelled; they do not steer the control flow.
\<close>

definition RetryStage_exec :: "RetryStage \<Rightarrow> Context \<Rightarrow> Alert list \<Rightarrow> error \<Rightarrow> step list
    \<Rightarrow> result option \<times> event list" where
  "RetryStage_exec r ctx alerts cerr sched =
     (if \<not> SendResolved (integration r) then
        (case FiringAlerts ctx of
           None \<Rightarrow> (Some (ctx, [], Some (New ''firing alerts missing'')), [])
         | Some firing \<Rightarrow>
             if length firing = 0 then (Some (ctx, alerts, None), [])
             else retry_loop r ctx alerts (filter (\<lambda>a. Status a \<noteq> AlertResolved) alerts)
                    cerr 0 None sched)
      else retry_loop r ctx alerts alerts cerr 0 None sched)"

text \<open>The calls of \<open>Notify\<close> among the events, with the batch each one was given.\<close>

fun notify_calls :: "event list \<Rightarrow> Alert list list" where
  "notify_calls [] = []"
| "notify_calls (EvNotify xs # evs) = xs # notify_calls evs"
| "notify_calls (ev # evs) = notify_calls evs"

text \<open>
  A tick whose \<open>Notify\<close> fails with a retryable error keeps the loop going; the last
  such error is what a later cancellation reports.
\<close>

fun retryable_failure :: "step \<Rightarrow> bool" where
  "retryable_failure (Tick retry (Some e) done_after) = retry"
| "retryable_failure s = False"

fun last_failure :: "error option \<Rightarrow> step list \<Rightarrow> error option" where
  "last_failure iErr [] = iErr"
| "last_failure iErr (Tick retry (Some e) done_after # sched) = last_failure (Some e) sched"
| "last_failure iErr (s # sched) = last_failure iErr sched"

text \<open>
  A context that is done stays done. In a schedule this reads: after a \<open>Notify\<close> that
  returned with the context done, the next iteration finds it done at its first check.
\<close>

fun done_stays :: "step list \<Rightarrow> bool" where
  "done_stays (Tick retry err True # s # sched) = (s = DoneAtCheck \<and> done_stays (s # sched))"
| "done_stays (s # sched) = done_stays sched"
| "done_stays [] = True"

text \<open>The leading iterations whose \<open>Notify\<close> returned while the context was not done.\<close>

fun completed_before_done :: "step list \<Rightarrow> nat" where
  "completed_before_done (Tick retry err False # sched) = Suc (completed_before_done sched)"
| "completed_before_done sched = 0"

section \<open>Concrete inputs\<close>

definition alert0 :: Alert where
  "alert0 = \<lparr> Labels = [(''alertname'', ''Cpu'')], Status = AlertFiring, Stage = ''active'',
     RuleUID = ''rule-1'', SentCount = 0 \<rparr>"

definition succeed :: "unit Stage" where
  "succeed = pure_stage (\<lambda>ctx alerts. (ctx, alerts, None))"

definition no_intervals :: "string \<rightharpoonup> TimeInterval list" where
  "no_intervals = Map.empty"

definition ctx_mute_no_now :: Context where
  "ctx_mute_no_now = WithMuteTimeIntervals background [''night'']"

definition day_only :: "string \<rightharpoonup> TimeInterval list" where
  "day_only = [''day'' \<mapsto> [\<lambda>t. 8 \<le> t \<and> t < 20]]"

definition ctx_day_ghost :: "int \<Rightarrow> Context" where
  "ctx_day_ghost t = WithNow (WithActiveTimeIntervals
     (WithMuteTimeIntervals background [''day'', ''ghost'']) [''day'', ''ghost'']) t"

text \<open>A client whose every command times out.\<close>

definition down_rdb :: "mem Cmdable" where
  "down_rdb = \<lparr> Exists = (\<lambda>k m. (Inl (New ''i/o timeout''), m)),
     Get = (\<lambda>k m. (Inl (New ''i/o timeout''), m)),
     Del = (\<lambda>ks m. (Inl (New ''i/o timeout''), m)),
     SetNX = (\<lambda>k v ttl m. (Inl (New ''i/o timeout''), m)),
     Incr = (\<lambda>k m. (Inl (New ''i/o timeout''), m)) \<rparr>"

definition rcv0 :: Receiver where
  "rcv0 = \<lparr> GroupName = ''ops'', Integration = ''webhook'', Idx = 0 \<rparr>"

definition stage0 :: "mem DedupStage" where
  "stage0 = \<lparr> recv = rcv0, rdb = mem_rdb, hash = (\<lambda>a. 7) \<rparr>"

definition flaky0 :: "mem DedupStage" where
  "flaky0 = \<lparr> recv = rcv0, rdb = flaky_rdb, hash = (\<lambda>a. 7) \<rparr>"

definition down0 :: "mem DedupStage" where
  "down0 = \<lparr> recv = rcv0, rdb = down_rdb, hash = (\<lambda>a. 7) \<rparr>"

definition ctx0 :: Context where
  "ctx0 = WithRepeatInterval (WithGroupKey background ''g1'') 300"

definition resolved5 :: Alert where
  "resolved5 = \<lparr> Labels = [(''alertname'', ''Cpu'')], Status = AlertResolved, Stage = ''active'',
     RuleUID = ''rule-1'', SentCount = 5 \<rparr>"

definition vars0 :: dedup_vars where
  "vars0 = \<lparr> v_ctx = ctx0, v_firing = [], v_resolved = [], v_needsUpdateAlerts = [] \<rparr>"

definition retry0 :: RetryStage where
  "retry0 = \<lparr> integration = \<lparr> i_rs = False, i_name = ''webhook'', i_idx = 0 \<rparr>,
     groupName = ''ops'' \<rparr>"

definition retry1 :: RetryStage where
  "retry1 = \<lparr> integration = \<lparr> i_rs = True, i_name = ''webhook'', i_idx = 0 \<rparr>,
     groupName = ''ops'' \<rparr>"

definition ConnReset :: error where
  "ConnReset = New ''connection reset by peer''"

definition DeadlineExceeded :: error where
  "DeadlineExceeded = New ''context deadline exceeded''"

text \<open>
  Two retryable failures, the context done by the time the second \<open>Notify\<close> has
  returned, and the next check finding it done.
\<close>

definition sched_cancel :: "step list" where
  "sched_cancel = [Tick True (Some ConnReset) False, Tick True (Some ConnReset) True, DoneAtCheck]"


section \<open>Composition: FanoutStage and MultiStage\<close>

lemmas ctx_simps = WithNow_def WithActiveTimeIntervals_def WithMuteTimeIntervals_def
  WithFiringAlerts_def WithResolvedAlerts_def WithRuleUID_def WithGroupKey_def
  WithRepeatInterval_def WithReceiverName_def background_def Now_def
  MuteTimeIntervalNames_def ActiveTimeIntervalNames_def FiringAlerts_def ResolvedAlerts_def
  GroupKey_def RepeatInterval_def ReceiverName_def

lemma FanoutStage_Exec_batch:
  "FanoutStage_Exec fs ctx alerts w = Some ((c, as, e), w') \<Longrightarrow> c = ctx \<and> as = []"
  by (auto simp: FanoutStage_Exec_def split: option.splits if_splits)

text \<open>
  C1. The claim: \<open>FanoutStage.Exec\<close> returns the unchanged input batch with a nil error, or
  an aggregated multi-error. The code, run on one alert with one substage that succeeds,
  returns the empty batch with a nil error: the batch it returns is the local \<open>as\<close>, never
  the input.
\<close>

theorem FanoutStage_Exec_returns_no_alerts:
  "FanoutStage_Exec [succeed] background [alert0] () = Some ((background, [], None), ())"
  by (simp add: FanoutStage_Exec_def succeed_def pure_stage_def)

text \<open>
  C8, as stated: \<open>MultiStage{X}\<close> gives the same context, batch and error as \<open>X\<close>. It
  fails for a \<open>TimeMuteStage\<close> whose context lacks \<open>Now\<close>: the stage returns its input
  batch beside the error, the composite returns the error with a nil batch.
\<close>

theorem MultiStage_single_counterexample:
  "MultiStage_Exec [pure_stage (TimeMuteStage_Exec no_intervals)] ctx_mute_no_now [alert0] ()
     \<noteq> pure_stage (TimeMuteStage_Exec no_intervals) ctx_mute_no_now [alert0] ()"
  by (simp add: pure_stage_def TimeMuteStage_Exec_def ctx_mute_no_now_def ctx_simps)

text \<open>
  C8, amended: on an empty batch \<open>MultiStage{X}\<close> returns the context it was given, a nil
  batch and a nil error without running \<open>X\<close>; on a batch that is not empty it returns
  what \<open>X\<close> returns when \<open>X\<close> returns a nil error, it returns the context and the error
  of \<open>X\<close> with a nil batch when \<open>X\<close> returns an error, and it does not return when \<open>X\<close>
  does not.
\<close>

theorem MultiStage_single:
  "(alerts = [] \<longrightarrow> MultiStage_Exec [X] ctx alerts w = Some ((ctx, [], None), w)) \<and>
   (alerts \<noteq> [] \<longrightarrow> X ctx alerts w = None \<longrightarrow> MultiStage_Exec [X] ctx alerts w = None) \<and>
   (alerts \<noteq> [] \<longrightarrow> (\<forall>c as w'. X ctx alerts w = Some ((c, as, None), w')
       \<longrightarrow> MultiStage_Exec [X] ctx alerts w = X ctx alerts w)) \<and>
   (alerts \<noteq> [] \<longrightarrow> (\<forall>c as e w'. X ctx alerts w = Some ((c, as, Some e), w')
       \<longrightarrow> MultiStage_Exec [X] ctx alerts w = Some ((c, [], Some e), w')))"
  by simp

theorem MultiStage_single_witness:
  "MultiStage_Exec [succeed] background [alert0] () = succeed background [alert0] () \<and>
   MultiStage_Exec [succeed] background [] () = Some ((background, [], None), ()) \<and>
   MultiStage_Exec [pure_stage (TimeMuteStage_Exec no_intervals)] ctx_mute_no_now [alert0] ()
     = Some ((ctx_mute_no_now, [], Some (New ''missing now timestamp'')), ())"
proof -
  have ne: "[alert0] \<noteq> []" by simp
  have s: "succeed background [alert0] () = Some ((background, [alert0], None), ())"
    by (simp add: succeed_def pure_stage_def)
  have t: "pure_stage (TimeMuteStage_Exec no_intervals) ctx_mute_no_now [alert0] ()
     = Some ((ctx_mute_no_now, [alert0], Some (New ''missing now timestamp'')), ())"
    by (simp add: pure_stage_def TimeMuteStage_Exec_def ctx_mute_no_now_def ctx_simps)
  from MultiStage_single [of "[alert0]" succeed background "()"] ne s
  have 1: "MultiStage_Exec [succeed] background [alert0] () = succeed background [alert0] ()"
    by blast
  from MultiStage_single [of "[]" succeed background "()"]
  have 2: "MultiStage_Exec [succeed] background [] () = Some ((background, [], None), ())"
    by blast
  from MultiStage_single [of "[alert0]" "pure_stage (TimeMuteStage_Exec no_intervals)"
      ctx_mute_no_now "()"] ne t
  have 3: "MultiStage_Exec [pure_stage (TimeMuteStage_Exec no_intervals)] ctx_mute_no_now
      [alert0] () = Some ((ctx_mute_no_now, [], Some (New ''missing now timestamp'')), ())"
    by blast
  from 1 2 3 show ?thesis by blast
qed

section \<open>TimeMuteStage and TimeActiveStage\<close>

lemma inTimeIntervals_absent:
  "intervals name = None \<Longrightarrow>
   \<forall>n \<in> set pre. \<exists>iv. intervals n = Some iv \<and> \<not> list_ex (\<lambda>ti. ti now) iv \<Longrightarrow>
   inTimeIntervals now intervals (pre @ name # post) = Inl (missing_interval name)"
  by (induction pre) auto

lemma TimeMuteStage_Exec_cong:
  assumes "Now ctx = Now ctx'" "MuteTimeIntervalNames ctx = MuteTimeIntervalNames ctx'"
  shows "snd (snd (TimeMuteStage_Exec Times ctx alerts))
           = snd (snd (TimeMuteStage_Exec Times ctx' alerts'))
    \<and> ((fst (snd (TimeMuteStage_Exec Times ctx alerts)) = alerts
          \<and> fst (snd (TimeMuteStage_Exec Times ctx' alerts')) = alerts')
       \<or> (fst (snd (TimeMuteStage_Exec Times ctx alerts)) = []
          \<and> fst (snd (TimeMuteStage_Exec Times ctx' alerts')) = []))"
  using assms
  by (auto simp: TimeMuteStage_Exec_def split: option.splits sum.splits)

lemma TimeActiveStage_Exec_cong:
  assumes "Now ctx = Now ctx'" "ActiveTimeIntervalNames ctx = ActiveTimeIntervalNames ctx'"
  shows "snd (snd (TimeActiveStage_Exec Times ctx alerts))
           = snd (snd (TimeActiveStage_Exec Times ctx' alerts'))
    \<and> ((fst (snd (TimeActiveStage_Exec Times ctx alerts)) = alerts
          \<and> fst (snd (TimeActiveStage_Exec Times ctx' alerts')) = alerts')
       \<or> (fst (snd (TimeActiveStage_Exec Times ctx alerts)) = []
          \<and> fst (snd (TimeActiveStage_Exec Times ctx' alerts')) = []))"
  using assms
  by (auto simp: TimeActiveStage_Exec_def split: option.splits sum.splits)

lemma TimeMuteStage_Exec_absent:
  assumes "Now ctx = Some now" "MuteTimeIntervalNames ctx = Some (pre @ name # post)"
    "Times name = None"
    "\<forall>n \<in> set pre. \<exists>iv. Times n = Some iv \<and> \<not> list_ex (\<lambda>ti. ti now) iv"
  shows "TimeMuteStage_Exec Times ctx alerts = (ctx, alerts, Some (missing_interval name))"
  using assms inTimeIntervals_absent [of Times name pre now post]
  by (simp add: TimeMuteStage_Exec_def)

lemma TimeActiveStage_Exec_absent:
  assumes "Now ctx = Some now" "ActiveTimeIntervalNames ctx = Some (pre @ name # post)"
    "Times name = None"
    "\<forall>n \<in> set pre. \<exists>iv. Times n = Some iv \<and> \<not> list_ex (\<lambda>ti. ti now) iv"
  shows "TimeActiveStage_Exec Times ctx alerts = (ctx, alerts, Some (missing_interval name))"
  using assms inTimeIntervals_absent [of Times name pre now post]
  by (simp add: TimeActiveStage_Exec_def)

text \<open>
  C9, as stated: a listed interval name that is absent from the table makes the stage
  abort with an error. Here \<open>ghost\<close> is listed and absent, listed after \<open>day\<close>, which
  contains \<open>Now\<close>: the lookup stops at \<open>day\<close>, and the stage mutes the batch with a nil
  error.
\<close>

theorem time_stage_absent_name_counterexample:
  "MuteTimeIntervalNames (ctx_day_ghost 12) = Some [''day'', ''ghost''] \<and>
   day_only ''ghost'' = None \<and>
   TimeMuteStage_Exec day_only (ctx_day_ghost 12) [alert0] = (ctx_day_ghost 12, [], None)"
  by (simp add: TimeMuteStage_Exec_def ctx_day_ghost_def day_only_def ctx_simps)

text \<open>
  C9, amended. Both stages return the batch they were given or the empty batch, and
  which of the two, and which error, depends only on \<open>Now\<close>, the listed names and the
  table: two executions that agree on these agree on the error and on keeping or
  dropping, whatever the batches and the rest of the contexts. When \<open>Now\<close> is present
  and a listed name is absent from the table, and no interval listed before it contains
  \<open>Now\<close>, the stage returns the error \<open>time interval <name> doesn't exist in config\<close>,
  beside the batch it was given.
\<close>

theorem time_stages_all_or_nothing:
  "(Now ctx = Now ctx' \<longrightarrow> MuteTimeIntervalNames ctx = MuteTimeIntervalNames ctx' \<longrightarrow>
      snd (snd (TimeMuteStage_Exec Times ctx alerts))
        = snd (snd (TimeMuteStage_Exec Times ctx' alerts'))
      \<and> ((fst (snd (TimeMuteStage_Exec Times ctx alerts)) = alerts
            \<and> fst (snd (TimeMuteStage_Exec Times ctx' alerts')) = alerts')
         \<or> (fst (snd (TimeMuteStage_Exec Times ctx alerts)) = []
            \<and> fst (snd (TimeMuteStage_Exec Times ctx' alerts')) = []))) \<and>
   (Now ctx = Now ctx' \<longrightarrow> ActiveTimeIntervalNames ctx = ActiveTimeIntervalNames ctx' \<longrightarrow>
      snd (snd (TimeActiveStage_Exec Times ctx alerts))
        = snd (snd (TimeActiveStage_Exec Times ctx' alerts'))
      \<and> ((fst (snd (TimeActiveStage_Exec Times ctx alerts)) = alerts
            \<and> fst (snd (TimeActiveStage_Exec Times ctx' alerts')) = alerts')
         \<or> (fst (snd (TimeActiveStage_Exec Times ctx alerts)) = []
            \<and> fst (snd (TimeActiveStage_Exec Times ctx' alerts')) = []))) \<and>
   (Now ctx = Some now \<longrightarrow> Times name = None \<longrightarrow>
      (\<forall>n \<in> set pre. \<exists>iv. Times n = Some iv \<and> \<not> list_ex (\<lambda>ti. ti now) iv) \<longrightarrow>
      (MuteTimeIntervalNames ctx = Some (pre @ name # post) \<longrightarrow>
         TimeMuteStage_Exec Times ctx alerts =
           (ctx, alerts, Some (New (''time interval '' @ name @ '' doesn'' @ [CHR 0x27]
                                      @ ''t exist in config'')))) \<and>
      (ActiveTimeIntervalNames ctx = Some (pre @ name # post) \<longrightarrow>
         TimeActiveStage_Exec Times ctx alerts =
           (ctx, alerts, Some (New (''time interval '' @ name @ '' doesn'' @ [CHR 0x27]
                                      @ ''t exist in config'')))))"
  using TimeMuteStage_Exec_cong [of ctx ctx' Times alerts alerts']
    TimeActiveStage_Exec_cong [of ctx ctx' Times alerts alerts']
    TimeMuteStage_Exec_absent [of ctx now pre name post Times alerts]
    TimeActiveStage_Exec_absent [of ctx now pre name post Times alerts]
  unfolding missing_interval_def
  by blast

theorem time_stages_all_or_nothing_witness:
  "TimeMuteStage_Exec day_only (ctx_day_ghost 22) [alert0]
     = (ctx_day_ghost 22, [alert0], Some (New ''time interval ghost doesn't exist in config'')) \<and>
   TimeActiveStage_Exec day_only (ctx_day_ghost 22) [alert0]
     = (ctx_day_ghost 22, [alert0], Some (New ''time interval ghost doesn't exist in config'')) \<and>
   (fst (snd (TimeMuteStage_Exec day_only (ctx_day_ghost 12) [alert0])) = [] \<and>
    fst (snd (TimeMuteStage_Exec day_only (WithGroupKey (ctx_day_ghost 12) ''g1'') [])) = [])"
proof -
  have now: "Now (ctx_day_ghost 22) = Some 22"
    and mute: "MuteTimeIntervalNames (ctx_day_ghost 22) = Some ([''day''] @ ''ghost'' # [])"
    and active: "ActiveTimeIntervalNames (ctx_day_ghost 22) = Some ([''day''] @ ''ghost'' # [])"
    by (simp_all add: ctx_day_ghost_def ctx_simps)
  have absent: "day_only ''ghost'' = None"
    by (simp add: day_only_def)
  have before: "\<forall>n \<in> set [''day'']. \<exists>iv. day_only n = Some iv \<and> \<not> list_ex (\<lambda>ti. ti 22) iv"
    by (simp add: day_only_def)
  have same: "Now (ctx_day_ghost 12) = Now (WithGroupKey (ctx_day_ghost 12) ''g1'')"
    "MuteTimeIntervalNames (ctx_day_ghost 12)
       = MuteTimeIntervalNames (WithGroupKey (ctx_day_ghost 12) ''g1'')"
    by (simp_all add: ctx_day_ghost_def ctx_simps)
  have muted: "fst (snd (TimeMuteStage_Exec day_only (ctx_day_ghost 12) [alert0])) \<noteq> [alert0]"
    by (simp add: TimeMuteStage_Exec_def ctx_day_ghost_def day_only_def ctx_simps)
  from time_stages_all_or_nothing [of "ctx_day_ghost 22" "ctx_day_ghost 22" day_only "[alert0]"
      "[alert0]" 22 "''ghost''" "[''day'']" "[]"] now mute active absent before
  have 1: "TimeMuteStage_Exec day_only (ctx_day_ghost 22) [alert0]
     = (ctx_day_ghost 22, [alert0], Some (New ''time interval ghost doesn't exist in config''))"
    and 2: "TimeActiveStage_Exec day_only (ctx_day_ghost 22) [alert0]
     = (ctx_day_ghost 22, [alert0], Some (New ''time interval ghost doesn't exist in config''))"
    by simp_all
  from time_stages_all_or_nothing [of "ctx_day_ghost 12" "WithGroupKey (ctx_day_ghost 12) ''g1''"
      day_only "[alert0]" "[]" 22 "''ghost''" "[''day'']" "[]"] same muted
  have 3: "fst (snd (TimeMuteStage_Exec day_only (ctx_day_ghost 12) [alert0])) = [] \<and>
    fst (snd (TimeMuteStage_Exec day_only (WithGroupKey (ctx_day_ghost 12) ''g1'') [])) = []"
    by blast
  from 1 2 3 show ?thesis by blast
qed

section \<open>DedupStage\<close>

lemmas send_defs = send_Exists_def send_Get_def send_Del_def send_SetNX_def send_Incr_def
  int_reply_def str_reply_def bool_reply_def

lemma dedup_firing_log:
  assumes "dedup_firing n k ri a v c = (v', c')"
  defines "lg \<equiv> new_log c c'"
  defines "set_ok \<equiv> (map_of lg (CmdSetNX k (Stage a) ri) = Some (ReplyBool True))"
  defines "stale \<equiv> (\<exists>s. map_of lg (CmdGet k) = Some (ReplyStr s) \<and> s \<noteq> [] \<and> s \<noteq> Stage a)"
  shows "map fst lg = [CmdGet k] @ (if stale then [CmdDel [k]] else [])
            @ [CmdSetNX k (Stage a) ri] @ (if set_ok then [CmdIncr (AlertSentPrefix @ k)] else [])"
    and "v_firing v' = (if set_ok then v_firing v @ [hash n a] else v_firing v)"
    and "v_resolved v' = v_resolved v"
    and "v_needsUpdateAlerts v' =
          (if set_ok then v_needsUpdateAlerts v @
              [case map_of lg (CmdIncr (AlertSentPrefix @ k)) of
                 Some (ReplyInt count) \<Rightarrow> a\<lparr>SentCount := count\<rparr> | _ \<Rightarrow> a]
           else v_needsUpdateAlerts v)"
    and "\<exists>l. snd c' = snd c @ l"
  using assms(1)
  unfolding lg_def set_ok_def stale_def dedup_firing_def new_log_def send_defs
  by (auto split: prod.splits sum.splits if_splits simp: Let_def)

lemma dedup_resolved_log:
  assumes "dedup_resolved n k a v c = (v', c')"
  defines "lg \<equiv> new_log c c'"
  defines "exist \<equiv> (map_of lg (CmdExists k) = Some (ReplyInt 1))"
  shows "map fst lg = CmdExists k # (if exist then [CmdGet (AlertSentPrefix @ k)] else [])"
    and "v_resolved v' = v_resolved v @ [hash n a]"
    and "v_firing v' = v_firing v"
    and "v_needsUpdateAlerts v' =
          (if exist then v_needsUpdateAlerts v @
              [case map_of lg (CmdGet (AlertSentPrefix @ k)) of
                 Some (ReplyStr s) \<Rightarrow> (case ParseInt s of Inr count \<Rightarrow> a\<lparr>SentCount := count\<rparr> | Inl e \<Rightarrow> a)
               | _ \<Rightarrow> a]
           else v_needsUpdateAlerts v)"
    and "\<exists>l. snd c' = snd c @ l"
  using assms(1)
  unfolding lg_def exist_def dedup_resolved_def new_log_def send_defs Int64_def
  by (auto split: prod.splits sum.splits if_splits simp: Let_def)

lemma mem_rdb_sel [simp]:
  "Exists mem_rdb = mem_Exists" "Get mem_rdb = mem_Get" "Del mem_rdb = mem_Del"
  "SetNX mem_rdb = mem_SetNX" "Incr mem_rdb = mem_Incr"
  by (simp_all add: mem_rdb_def)

lemma AlertSentPrefix_nonempty [simp]: "AlertSentPrefix \<noteq> []"
  by (simp add: AlertSentPrefix_def)




lemma mem_resolved_store:
  assumes "rdb n = mem_rdb"
  shows "fst (snd (dedup_resolved n k a v (m, lg))) = m"
  using assms
  by (simp add: dedup_resolved_def send_Exists_def send_Get_def mem_Exists_def mem_Get_def
      Let_def split: option.splits sum.splits)


lemma dedup_alert_firing:
  "\<not> Resolved a \<Longrightarrow>
   dedup_alert n gkey ri a v c = dedup_firing n (stateKey gkey (recv n) (hash n a)) ri a v c"
  by (simp add: dedup_alert_def)

lemma dedup_alert_resolved:
  "Resolved a \<Longrightarrow>
   dedup_alert n gkey ri a v c = dedup_resolved n (stateKey gkey (recv n) (hash n a)) a v c"
  by (simp add: dedup_alert_def)

lemma in_log_iff: "(x \<in> set (map fst lg)) = (map_of lg x \<noteq> None)"
  by (simp add: map_of_eq_None_iff)

lemma new_log_append: "snd c' = snd c @ l \<Longrightarrow> new_log c c' = l"
  by (simp add: new_log_def)

lemma dedup_alert_log:
  "\<exists>l. snd (snd (dedup_alert n g t a v c)) = snd c @ l \<and> first_cmd n g a \<in> set (map fst l)"
proof (cases "Resolved a")
  case True
  define k where "k = stateKey g (recv n) (hash n a)"
  obtain v' c' where run: "dedup_resolved n k a v c = (v', c')"
    by (cases "dedup_resolved n k a v c")
  from dedup_resolved_log(5) [OF run] obtain l where l: "snd c' = snd c @ l" by blast
  then have nl: "new_log c c' = l" by (rule new_log_append)
  have "CmdExists k \<in> set (map fst (new_log c c'))"
    unfolding dedup_resolved_log(1) [OF run] by simp
  then have "first_cmd n g a \<in> set (map fst l)"
    unfolding nl first_cmd_def k_def using True by simp
  moreover have "snd (snd (dedup_alert n g t a v c)) = snd c'"
    unfolding dedup_alert_resolved [OF True] k_def [symmetric] run by simp
  ultimately show ?thesis using l by metis
next
  case False
  define k where "k = stateKey g (recv n) (hash n a)"
  obtain v' c' where run: "dedup_firing n k t a v c = (v', c')"
    by (cases "dedup_firing n k t a v c")
  from dedup_firing_log(5) [OF run] obtain l where l: "snd c' = snd c @ l" by blast
  then have nl: "new_log c c' = l" by (rule new_log_append)
  have "CmdGet k \<in> set (map fst (new_log c c'))"
    unfolding dedup_firing_log(1) [OF run] by simp
  then have "first_cmd n g a \<in> set (map fst l)"
    unfolding nl first_cmd_def k_def using False by simp
  moreover have "snd (snd (dedup_alert n g t a v c)) = snd c'"
    unfolding dedup_alert_firing [OF False] k_def [symmetric] run by simp
  ultimately show ?thesis using l by metis
qed

lemma dedup_loop_log:
  "\<exists>l. snd (snd (dedup_loop n g t alerts v c)) = snd c @ l
     \<and> (\<forall>a \<in> set alerts. first_cmd n g a \<in> set (map fst l))"
proof (induction alerts arbitrary: v c)
  case Nil
  show ?case by simp
next
  case (Cons a alerts)
  obtain v1 c1 where step: "dedup_alert n g t a v c = (v1, c1)"
    by (cases "dedup_alert n g t a v c")
  from dedup_alert_log [of n g t a v c] step
  obtain l1 where l1: "snd c1 = snd c @ l1" "first_cmd n g a \<in> set (map fst l1)" by auto
  from Cons.IH [of v1 c1]
  obtain l2 where l2: "snd (snd (dedup_loop n g t alerts v1 c1)) = snd c1 @ l2"
    "\<forall>a \<in> set alerts. first_cmd n g a \<in> set (map fst l2)" by blast
  have "snd (snd (dedup_loop n g t (a # alerts) v c)) = snd c @ (l1 @ l2)"
    using step l1(1) l2(1) by simp
  moreover have "\<forall>x \<in> set (a # alerts). first_cmd n g x \<in> set (map fst (l1 @ l2))"
    using l1(2) l2(2) by auto
  ultimately show ?case by blast
qed

lemma DedupStage_Exec_ok:
  assumes "GroupKey ctx = Some gkey" "RepeatInterval ctx = Some ri"
  shows "snd (snd (fst (DedupStage_Exec n ctx alerts c))) = None"
    and "\<forall>a \<in> set alerts. first_cmd n gkey a
            \<in> set (map fst (new_log c (snd (DedupStage_Exec n ctx alerts c))))"
    and "FiringAlerts (fst (fst (DedupStage_Exec n ctx alerts c))) \<noteq> None"
    and "ResolvedAlerts (fst (fst (DedupStage_Exec n ctx alerts c))) \<noteq> None"
proof -
  let ?v0 = "\<lparr>v_ctx = ctx, v_firing = [], v_resolved = [], v_needsUpdateAlerts = []\<rparr>"
  have ex: "DedupStage_Exec n ctx alerts c =
      ((WithResolvedAlerts (WithFiringAlerts (v_ctx (fst (dedup_loop n gkey ri alerts ?v0 c)))
           (v_firing (fst (dedup_loop n gkey ri alerts ?v0 c))))
           (v_resolved (fst (dedup_loop n gkey ri alerts ?v0 c))),
        v_needsUpdateAlerts (fst (dedup_loop n gkey ri alerts ?v0 c)), None),
       snd (dedup_loop n gkey ri alerts ?v0 c))"
    using assms by (simp add: DedupStage_Exec_def case_prod_beta)
  show "snd (snd (fst (DedupStage_Exec n ctx alerts c))) = None"
    unfolding ex by simp
  from dedup_loop_log [of n gkey ri alerts ?v0 c]
  obtain l where l: "snd (snd (dedup_loop n gkey ri alerts ?v0 c)) = snd c @ l"
    "\<forall>a \<in> set alerts. first_cmd n gkey a \<in> set (map fst l)" by blast
  have "new_log c (snd (DedupStage_Exec n ctx alerts c)) = l"
    unfolding ex using l(1) by (simp add: new_log_def)
  with l(2) show "\<forall>a \<in> set alerts. first_cmd n gkey a
            \<in> set (map fst (new_log c (snd (DedupStage_Exec n ctx alerts c))))"
    by simp
  show "FiringAlerts (fst (fst (DedupStage_Exec n ctx alerts c))) \<noteq> None"
    unfolding ex by (simp add: FiringAlerts_def WithFiringAlerts_def WithResolvedAlerts_def)
  show "ResolvedAlerts (fst (fst (DedupStage_Exec n ctx alerts c))) \<noteq> None"
    unfolding ex by (simp add: ResolvedAlerts_def WithFiringAlerts_def WithResolvedAlerts_def)
qed

lemma DedupStage_Exec_hard_error:
  "snd (snd (fst (DedupStage_Exec n ctx alerts c))) = None
     \<longleftrightarrow> GroupKey ctx \<noteq> None \<and> RepeatInterval ctx \<noteq> None"
  by (auto simp: DedupStage_Exec_def case_prod_beta split: option.splits)

subsection \<open>Executions on concrete inputs\<close>

lemma key0: "stateKey ''g1'' rcv0 7 = ''g1:ops:webhook:0:7''"
  by (simp add: stateKey_def receiverKey_def rcv0_def dec.simps digit_def)

lemmas eval_defs = dedup_alert_def dedup_firing_def dedup_resolved_def Resolved_def
  send_Exists_def send_Get_def send_Del_def send_SetNX_def send_Incr_def
  int_reply_def str_reply_def bool_reply_def Int64_def
  mem_rdb_def flaky_rdb_def down_rdb_def mem_Exists_def mem_Get_def mem_Del_def mem_SetNX_def mem_Incr_def
  stage0_def flaky0_def down0_def alert0_def resolved5_def vars0_def ctx0_def AlertSentPrefix_def
  dec_int_def dec.simps digit_def redis_Nil_def WithRuleUID_def WithGroupKey_def
  WithRepeatInterval_def WithFiringAlerts_def WithResolvedAlerts_def background_def
  GroupKey_def RepeatInterval_def DedupStage_Exec_def new_log_def Let_def



lemma resolved_run:
  "dedup_alert stage0 ''g1'' 300 resolved5 vars0 ([(''g1:ops:webhook:0:7'', ''active'')], []) =
     (vars0\<lparr>v_resolved := [7], v_needsUpdateAlerts := [resolved5],
            v_ctx := WithRuleUID ctx0 ''rule-1''\<rparr>,
      [(''g1:ops:webhook:0:7'', ''active'')],
      [(CmdExists ''g1:ops:webhook:0:7'', ReplyInt 1),
       (CmdGet ''alert-sent-g1:ops:webhook:0:7'', ReplyErr (New ''redis: nil''))])"
  by (simp add: eval_defs key0)

lemma flaky_run:
  "dedup_alert flaky0 ''g1'' 300 alert0 vars0 ([], []) =
     (vars0\<lparr>v_firing := [7], v_needsUpdateAlerts := [alert0],
            v_ctx := WithRuleUID ctx0 ''rule-1''\<rparr>,
      [(''g1:ops:webhook:0:7'', ''active'')],
      [(CmdGet ''g1:ops:webhook:0:7'', ReplyErr (New ''i/o timeout'')),
       (CmdSetNX ''g1:ops:webhook:0:7'' ''active'' 300, ReplyBool True),
       (CmdIncr ''alert-sent-g1:ops:webhook:0:7'', ReplyErr (New ''i/o timeout''))])"
  by (simp add: eval_defs key0)

lemma ctx0_keys: "GroupKey ctx0 = Some ''g1''" "RepeatInterval ctx0 = Some 300"
  by (simp_all add: ctx0_def ctx_simps)

lemma alert0_fields: "\<not> Resolved alert0" "Stage alert0 = ''active''" "Resolved resolved5"
  by (simp_all add: Resolved_def alert0_def resolved5_def)

lemma stage0_fields: "recv stage0 = rcv0" "hash stage0 a = 7" "rdb stage0 = mem_rdb"
  "recv flaky0 = rcv0" "hash flaky0 a = 7" "recv down0 = rcv0" "hash down0 a = 7"
  by (simp_all add: stage0_def flaky0_def down0_def)



text \<open>
  C3, as stated: a resolved alert whose sent counter is absent is emitted with
  \<open>SentCount = 0\<close>. Here the state key exists, the counter does not, and the alert comes
  in with \<open>SentCount = 5\<close>: it is emitted with \<open>SentCount = 5\<close>.
\<close>

theorem DedupStage_resolved_count_counterexample:
  "DedupStage_Exec stage0 ctx0 [resolved5] ([(''g1:ops:webhook:0:7'', ''active'')], []) =
     ((WithResolvedAlerts (WithFiringAlerts (WithRuleUID ctx0 ''rule-1'') []) [7], [resolved5], None),
      [(''g1:ops:webhook:0:7'', ''active'')],
      [(CmdExists ''g1:ops:webhook:0:7'', ReplyInt 1),
       (CmdGet ''alert-sent-g1:ops:webhook:0:7'', ReplyErr (New ''redis: nil''))])
   \<and> SentCount resolved5 = 5"
  by (simp add: eval_defs key0)

text \<open>
  C3, amended. For a resolved alert the loop body appends the hash to the resolved list,
  whatever the store answers, and sends nothing but \<open>Exists\<close> on the state key and
  \<open>Get\<close> on the sent counter: it never sets or deletes a key, and the in-memory store is
  left as it was. The alert is appended to the emitted batch iff \<open>Exists\<close> answers 1.
  It is emitted with \<open>SentCount\<close> read from the counter when the counter holds an
  integer; when the counter is absent or unreadable, it is emitted with the \<open>SentCount\<close>
  it came with.
\<close>

theorem DedupStage_resolved_alert:
  "Resolved a \<Longrightarrow> dedup_alert n gkey ri a v c = (v', c') \<Longrightarrow>
   k = stateKey gkey (recv n) (hash n a) \<Longrightarrow> lg = new_log c c' \<Longrightarrow>
   v_resolved v' = v_resolved v @ [hash n a] \<and> v_firing v' = v_firing v \<and>
   (\<exists>r. map_of lg (CmdExists k) = Some r) \<and>
   set (map fst lg) \<subseteq> {CmdExists k, CmdGet (AlertSentPrefix @ k)} \<and>
   (if map_of lg (CmdExists k) = Some (ReplyInt 1)
    then v_needsUpdateAlerts v' = v_needsUpdateAlerts v @
           [case map_of lg (CmdGet (AlertSentPrefix @ k)) of
              Some (ReplyStr s) \<Rightarrow>
                (case ParseInt s of Inr count \<Rightarrow> a\<lparr>SentCount := count\<rparr> | Inl e \<Rightarrow> a)
            | _ \<Rightarrow> a]
    else v_needsUpdateAlerts v' = v_needsUpdateAlerts v) \<and>
   (rdb nm = mem_rdb \<longrightarrow> Resolved b \<longrightarrow> fst (snd (dedup_alert nm g t b vm (m, l0))) = m)"
proof -
  assume res: "Resolved a" and run: "dedup_alert n gkey ri a v c = (v', c')"
    and k: "k = stateKey gkey (recv n) (hash n a)" and lg: "lg = new_log c c'"
  from res run k have dr: "dedup_resolved n k a v c = (v', c')"
    by (simp add: dedup_alert_resolved)
  note L = dedup_resolved_log [OF dr, folded lg]
  have "CmdExists k \<in> set (map fst lg)"
    unfolding L(1) by simp
  then have A: "\<exists>r. map_of lg (CmdExists k) = Some r"
    unfolding in_log_iff by blast
  have B: "set (map fst lg) \<subseteq> {CmdExists k, CmdGet (AlertSentPrefix @ k)}"
    unfolding L(1) by auto
  have C: "rdb nm = mem_rdb \<longrightarrow> Resolved b \<longrightarrow> fst (snd (dedup_alert nm g t b vm (m, l0))) = m"
    using mem_resolved_store [of nm] by (simp add: dedup_alert_resolved)
  from L(2) L(3) A B L(4) C show ?thesis by (intro conjI) simp_all
qed

theorem DedupStage_resolved_alert_witness:
  "v_resolved (fst (dedup_alert stage0 ''g1'' 300 resolved5 vars0
       ([(''g1:ops:webhook:0:7'', ''active'')], []))) = [7] \<and>
   v_needsUpdateAlerts (fst (dedup_alert stage0 ''g1'' 300 resolved5 vars0
       ([(''g1:ops:webhook:0:7'', ''active'')], []))) = [resolved5] \<and>
   fst (snd (dedup_alert stage0 ''g1'' 300 resolved5 vars0
       ([(''g1:ops:webhook:0:7'', ''active'')], []))) = [(''g1:ops:webhook:0:7'', ''active'')]"
proof -
  let ?k = "''g1:ops:webhook:0:7''"
  let ?lg = "[(CmdExists ?k, ReplyInt 1),
       (CmdGet ''alert-sent-g1:ops:webhook:0:7'', ReplyErr (New ''redis: nil''))]"
  let ?m = "[(?k, ''active'')]"
  have k: "?k = stateKey ''g1'' (recv stage0) (hash stage0 resolved5)"
    by (simp add: key0 stage0_fields)
  have lg: "?lg = new_log (?m, []) (?m, ?lg)"
    by (simp add: new_log_def)
  note T = DedupStage_resolved_alert [where nm = stage0 and b = resolved5 and g = "''g1''"
      and t = 300 and vm = vars0 and m = ?m and ?l0.0 = "[]", OF alert0_fields(3) resolved_run k lg]
  from T have 1: "v_resolved (vars0\<lparr>v_resolved := [7], v_needsUpdateAlerts := [resolved5],
            v_ctx := WithRuleUID ctx0 ''rule-1''\<rparr>) = v_resolved vars0 @ [hash stage0 resolved5]"
    by blast
  from T have 3: "fst (snd (dedup_alert stage0 ''g1'' 300 resolved5 vars0 (?m, []))) = ?m"
    using stage0_fields(3) alert0_fields(3) by blast
  show ?thesis
    using 1 3 unfolding resolved_run by (simp add: vars0_def stage0_fields)
qed


text \<open>
  C4, as stated: an error from any of \<open>Exists\<close>, \<open>Get\<close>, \<open>SetNX\<close>, \<open>Incr\<close> leaves the
  alert out of the emitted batch. Here \<open>Get\<close> and \<open>Incr\<close> time out for a firing alert
  and the alert is emitted all the same.
\<close>

theorem DedupStage_store_error_counterexample:
  "DedupStage_Exec flaky0 ctx0 [alert0] ([], []) =
     ((WithResolvedAlerts (WithFiringAlerts (WithRuleUID ctx0 ''rule-1'') [7]) [], [alert0], None),
      [(''g1:ops:webhook:0:7'', ''active'')],
      [(CmdGet ''g1:ops:webhook:0:7'', ReplyErr (New ''i/o timeout'')),
       (CmdSetNX ''g1:ops:webhook:0:7'' ''active'' 300, ReplyBool True),
       (CmdIncr ''alert-sent-g1:ops:webhook:0:7'', ReplyErr (New ''i/o timeout''))])"
  by (simp add: eval_defs key0)

text \<open>
  C4, amended. With \<open>GroupKey\<close> and \<open>RepeatInterval\<close> present the stage returns a nil
  error whatever the store answers, and every alert of the batch is processed: the first
  command of each one is sent. An error from \<open>Exists\<close> (resolved alert) or from \<open>SetNX\<close>
  (firing alert) leaves that alert out of the emitted batch. An error from the \<open>Get\<close> of
  the stored stage does not: no \<open>Del\<close> is sent and \<open>SetNX\<close> decides. An error from
  \<open>Incr\<close>, or from the \<open>Get\<close> of the sent counter, does not either: the alert is
  emitted as it came.
\<close>

theorem DedupStage_store_errors:
  "(GroupKey ctx = Some gkey \<longrightarrow> RepeatInterval ctx = Some ri \<longrightarrow>
      snd (snd (fst (DedupStage_Exec n ctx alerts c0))) = None \<and>
      (\<forall>x \<in> set alerts. first_cmd n gkey x
          \<in> set (map fst (new_log c0 (snd (DedupStage_Exec n ctx alerts c0)))))) \<and>
   (dedup_alert n gkey ri a v c = (v', c') \<longrightarrow> k = stateKey gkey (recv n) (hash n a) \<longrightarrow>
    lg = new_log c c' \<longrightarrow>
      (Resolved a \<longrightarrow> map_of lg (CmdExists k) = Some (ReplyErr e) \<longrightarrow>
         v_needsUpdateAlerts v' = v_needsUpdateAlerts v) \<and>
      (\<not> Resolved a \<longrightarrow> map_of lg (CmdSetNX k (Stage a) ri) = Some (ReplyErr e) \<longrightarrow>
         v_needsUpdateAlerts v' = v_needsUpdateAlerts v \<and> v_firing v' = v_firing v) \<and>
      (\<not> Resolved a \<longrightarrow> map_of lg (CmdGet k) = Some (ReplyErr e) \<longrightarrow>
         CmdDel [k] \<notin> set (map fst lg) \<and> CmdSetNX k (Stage a) ri \<in> set (map fst lg)) \<and>
      (\<not> Resolved a \<longrightarrow> map_of lg (CmdIncr (AlertSentPrefix @ k)) = Some (ReplyErr e) \<longrightarrow>
         v_needsUpdateAlerts v' = v_needsUpdateAlerts v @ [a]) \<and>
      (Resolved a \<longrightarrow> map_of lg (CmdGet (AlertSentPrefix @ k)) = Some (ReplyErr e) \<longrightarrow>
         v_needsUpdateAlerts v' = v_needsUpdateAlerts v @ [a]))"
proof -
  have batch: "GroupKey ctx = Some gkey \<longrightarrow> RepeatInterval ctx = Some ri \<longrightarrow>
      snd (snd (fst (DedupStage_Exec n ctx alerts c0))) = None \<and>
      (\<forall>x \<in> set alerts. first_cmd n gkey x
          \<in> set (map fst (new_log c0 (snd (DedupStage_Exec n ctx alerts c0)))))"
    using DedupStage_Exec_ok(1,2) [where ctx = ctx and gkey = gkey and ri = ri and n = n
        and alerts = alerts and c = c0] by blast
  have one: "(Resolved a \<longrightarrow> map_of lg (CmdExists k) = Some (ReplyErr e) \<longrightarrow>
         v_needsUpdateAlerts v' = v_needsUpdateAlerts v) \<and>
      (\<not> Resolved a \<longrightarrow> map_of lg (CmdSetNX k (Stage a) ri) = Some (ReplyErr e) \<longrightarrow>
         v_needsUpdateAlerts v' = v_needsUpdateAlerts v \<and> v_firing v' = v_firing v) \<and>
      (\<not> Resolved a \<longrightarrow> map_of lg (CmdGet k) = Some (ReplyErr e) \<longrightarrow>
         CmdDel [k] \<notin> set (map fst lg) \<and> CmdSetNX k (Stage a) ri \<in> set (map fst lg)) \<and>
      (\<not> Resolved a \<longrightarrow> map_of lg (CmdIncr (AlertSentPrefix @ k)) = Some (ReplyErr e) \<longrightarrow>
         v_needsUpdateAlerts v' = v_needsUpdateAlerts v @ [a]) \<and>
      (Resolved a \<longrightarrow> map_of lg (CmdGet (AlertSentPrefix @ k)) = Some (ReplyErr e) \<longrightarrow>
         v_needsUpdateAlerts v' = v_needsUpdateAlerts v @ [a])"
    if run: "dedup_alert n gkey ri a v c = (v', c')"
      and k: "k = stateKey gkey (recv n) (hash n a)" and lg: "lg = new_log c c'"
  proof (cases "Resolved a")
    case True
    from True run k have dr: "dedup_resolved n k a v c = (v', c')"
      by (simp add: dedup_alert_resolved)
    note L = dedup_resolved_log [OF dr, folded lg]
    have 1: "map_of lg (CmdExists k) = Some (ReplyErr e) \<Longrightarrow>
         v_needsUpdateAlerts v' = v_needsUpdateAlerts v"
      using L(4) by simp
    have ex: "(CmdGet (AlertSentPrefix @ k) \<in> set (map fst lg))
        = (map_of lg (CmdExists k) = Some (ReplyInt 1))"
      unfolding L(1) by simp
    have 5: "map_of lg (CmdGet (AlertSentPrefix @ k)) = Some (ReplyErr e) \<Longrightarrow>
         v_needsUpdateAlerts v' = v_needsUpdateAlerts v @ [a]"
    proof -
      assume g: "map_of lg (CmdGet (AlertSentPrefix @ k)) = Some (ReplyErr e)"
      then have "map_of lg (CmdGet (AlertSentPrefix @ k)) \<noteq> None" by simp
      then have "map_of lg (CmdExists k) = Some (ReplyInt 1)"
        unfolding in_log_iff [symmetric] ex .
      with L(4) g show ?thesis by simp
    qed
    from True 1 5 show ?thesis by blast
  next
    case False
    from False run k have df: "dedup_firing n k ri a v c = (v', c')"
      by (simp add: dedup_alert_firing)
    note L = dedup_firing_log [OF df, folded lg]
    have 2: "map_of lg (CmdSetNX k (Stage a) ri) = Some (ReplyErr e) \<Longrightarrow>
         v_needsUpdateAlerts v' = v_needsUpdateAlerts v \<and> v_firing v' = v_firing v"
      using L(2) L(4) by simp
    have 3: "map_of lg (CmdGet k) = Some (ReplyErr e) \<Longrightarrow>
         CmdDel [k] \<notin> set (map fst lg) \<and> CmdSetNX k (Stage a) ri \<in> set (map fst lg)"
      unfolding L(1) by simp
    have inc: "(CmdIncr (AlertSentPrefix @ k) \<in> set (map fst lg))
        = (map_of lg (CmdSetNX k (Stage a) ri) = Some (ReplyBool True))"
      unfolding L(1) by simp
    have 4: "map_of lg (CmdIncr (AlertSentPrefix @ k)) = Some (ReplyErr e) \<Longrightarrow>
         v_needsUpdateAlerts v' = v_needsUpdateAlerts v @ [a]"
    proof -
      assume g: "map_of lg (CmdIncr (AlertSentPrefix @ k)) = Some (ReplyErr e)"
      then have "map_of lg (CmdIncr (AlertSentPrefix @ k)) \<noteq> None" by simp
      then have "map_of lg (CmdSetNX k (Stage a) ri) = Some (ReplyBool True)"
        unfolding in_log_iff [symmetric] inc .
      with L(4) g show ?thesis by simp
    qed
    from False 2 3 4 show ?thesis by blast
  qed
  from batch one show ?thesis by blast
qed


lemma flaky_resolved_run:
  "dedup_alert flaky0 ''g1'' 300 resolved5 vars0 ([(''g1:ops:webhook:0:7'', ''active'')], []) =
     (vars0\<lparr>v_resolved := [7], v_needsUpdateAlerts := [resolved5],
            v_ctx := WithRuleUID ctx0 ''rule-1''\<rparr>,
      [(''g1:ops:webhook:0:7'', ''active'')],
      [(CmdExists ''g1:ops:webhook:0:7'', ReplyInt 1),
       (CmdGet ''alert-sent-g1:ops:webhook:0:7'', ReplyErr (New ''i/o timeout''))])"
  by (simp add: eval_defs key0)

lemma down_firing_run:
  "dedup_alert down0 ''g1'' 300 alert0 vars0 ([], []) =
     (vars0, [],
      [(CmdGet ''g1:ops:webhook:0:7'', ReplyErr (New ''i/o timeout'')),
       (CmdSetNX ''g1:ops:webhook:0:7'' ''active'' 300, ReplyErr (New ''i/o timeout''))])"
  by (simp add: eval_defs key0)

lemma down_resolved_run:
  "dedup_alert down0 ''g1'' 300 resolved5 vars0 ([], []) =
     (vars0\<lparr>v_resolved := [7]\<rparr>, [],
      [(CmdExists ''g1:ops:webhook:0:7'', ReplyErr (New ''i/o timeout''))])"
  by (simp add: eval_defs key0)

theorem DedupStage_store_errors_witness:
  "v_needsUpdateAlerts (fst (dedup_alert flaky0 ''g1'' 300 alert0 vars0 ([], []))) = [alert0] \<and>
   v_needsUpdateAlerts (fst (dedup_alert flaky0 ''g1'' 300 resolved5 vars0
       ([(''g1:ops:webhook:0:7'', ''active'')], []))) = [resolved5] \<and>
   v_needsUpdateAlerts (fst (dedup_alert down0 ''g1'' 300 alert0 vars0 ([], []))) = [] \<and>
   v_needsUpdateAlerts (fst (dedup_alert down0 ''g1'' 300 resolved5 vars0 ([], []))) = [] \<and>
   snd (snd (fst (DedupStage_Exec down0 ctx0 [resolved5, alert0] ([], [])))) = None \<and>
   CmdGet ''g1:ops:webhook:0:7''
     \<in> set (map fst (new_log ([], []) (snd (DedupStage_Exec down0 ctx0 [resolved5, alert0] ([], [])))))"
proof -
  let ?k = "''g1:ops:webhook:0:7''"
  let ?pk = "''alert-sent-g1:ops:webhook:0:7''"
  let ?to = "ReplyErr (New ''i/o timeout'')"
  have pk: "AlertSentPrefix @ ?k = ?pk" by (simp add: AlertSentPrefix_def)
  have kf: "?k = stateKey ''g1'' (recv flaky0) (hash flaky0 alert0)"
    and kfr: "?k = stateKey ''g1'' (recv flaky0) (hash flaky0 resolved5)"
    and kd: "?k = stateKey ''g1'' (recv down0) (hash down0 alert0)"
    and kdr: "?k = stateKey ''g1'' (recv down0) (hash down0 resolved5)"
    by (simp_all add: key0 stage0_fields)
  have lg: "\<And>m m' l. l = new_log (m, []) (m', l)"
    by (simp add: new_log_def)
  note S = DedupStage_store_errors [where e = "New ''i/o timeout''", THEN conjunct2, rule_format]
  have 1: "v_needsUpdateAlerts (vars0\<lparr>v_firing := [7], v_needsUpdateAlerts := [alert0],
            v_ctx := WithRuleUID ctx0 ''rule-1''\<rparr>) = v_needsUpdateAlerts vars0 @ [alert0]"
    by (rule S [OF flaky_run kf lg, THEN conjunct2, THEN conjunct2, THEN conjunct2,
          THEN conjunct1, rule_format, OF alert0_fields(1)]) (simp add: pk)
  have 2: "v_needsUpdateAlerts (vars0\<lparr>v_resolved := [7], v_needsUpdateAlerts := [resolved5],
            v_ctx := WithRuleUID ctx0 ''rule-1''\<rparr>) = v_needsUpdateAlerts vars0 @ [resolved5]"
    by (rule S [OF flaky_resolved_run kfr lg, THEN conjunct2, THEN conjunct2, THEN conjunct2,
          THEN conjunct2, rule_format, OF alert0_fields(3)]) (simp add: pk)
  have 3: "v_needsUpdateAlerts vars0 = v_needsUpdateAlerts vars0 \<and> v_firing vars0 = v_firing vars0"
    by (rule S [OF down_firing_run kd lg, THEN conjunct2, THEN conjunct1, rule_format,
          OF alert0_fields(1)]) (simp add: alert0_fields)
  have 4: "v_needsUpdateAlerts (vars0\<lparr>v_resolved := [7]\<rparr>) = v_needsUpdateAlerts vars0"
    by (rule S [OF down_resolved_run kdr lg, THEN conjunct1, rule_format,
          OF alert0_fields(3)]) simp
  have 5: "snd (snd (fst (DedupStage_Exec down0 ctx0 [resolved5, alert0] ([], [])))) = None \<and>
      (\<forall>x \<in> set [resolved5, alert0]. first_cmd down0 ''g1'' x
          \<in> set (map fst (new_log ([], [])
                (snd (DedupStage_Exec down0 ctx0 [resolved5, alert0] ([], []))))))"
    by (rule DedupStage_store_errors [THEN conjunct1, rule_format, OF ctx0_keys])
  have fc: "first_cmd down0 ''g1'' alert0 = CmdGet ?k"
    using alert0_fields(1) by (simp add: first_cmd_def kd [symmetric])
  from 5 have "first_cmd down0 ''g1'' alert0
     \<in> set (map fst (new_log ([], []) (snd (DedupStage_Exec down0 ctx0 [resolved5, alert0] ([], [])))))"
    by simp
  then have 6: "CmdGet ?k
     \<in> set (map fst (new_log ([], []) (snd (DedupStage_Exec down0 ctx0 [resolved5, alert0] ([], [])))))"
    unfolding fc .
  have a: "v_needsUpdateAlerts (fst (dedup_alert flaky0 ''g1'' 300 alert0 vars0 ([], []))) = [alert0]"
    unfolding flaky_run using 1 by (simp add: vars0_def)
  have b: "v_needsUpdateAlerts (fst (dedup_alert flaky0 ''g1'' 300 resolved5 vars0
       ([(''g1:ops:webhook:0:7'', ''active'')], []))) = [resolved5]"
    unfolding flaky_resolved_run using 2 by (simp add: vars0_def)
  have c: "v_needsUpdateAlerts (fst (dedup_alert down0 ''g1'' 300 alert0 vars0 ([], []))) = []"
    unfolding down_firing_run using 3 by (simp add: vars0_def)
  have d: "v_needsUpdateAlerts (fst (dedup_alert down0 ''g1'' 300 resolved5 vars0 ([], []))) = []"
    unfolding down_resolved_run using 4 by (simp add: vars0_def)
  from a b c d 5 6 show ?thesis by blast
qed

section \<open>RetryStage\<close>

lemma retry_loop_prefix:
  "list_all retryable_failure pre \<Longrightarrow>
   fst (retry_loop r ctx alerts sent cerr i iErr (pre @ rest))
     = fst (retry_loop r ctx alerts sent cerr (i + length pre) (last_failure iErr pre) rest)"
proof (induction pre arbitrary: i iErr)
  case Nil
  show ?case by simp
next
  case (Cons s pre)
  from Cons.prems obtain e d where s: "s = Tick True (Some e) d"
    by (cases s rule: retryable_failure.cases) auto
  from Cons.prems have "list_all retryable_failure pre" by simp
  from Cons.IH [OF this, of "i + 1" "Some e"] s show ?case
    by (simp add: case_prod_beta)
qed

lemma retry_loop_exhausted:
  "list_all retryable_failure sched \<Longrightarrow> fst (retry_loop r ctx alerts sent cerr i iErr sched) = None"
  using retry_loop_prefix [of sched r ctx alerts sent cerr i iErr "[]"] by simp

lemma retry_loop_returns:
  "\<not> list_all retryable_failure sched \<Longrightarrow>
   fst (retry_loop r ctx alerts sent cerr i iErr sched) = Some (ctx, alerts, None)
   \<or> (\<exists>e n. fst (retry_loop r ctx alerts sent cerr i iErr sched)
         = Some (ctx, alerts, Some (Wrapf e (unrecoverable_msg r n))))
   \<or> (\<exists>e n. fst (retry_loop r ctx alerts sent cerr i iErr sched)
         = Some (ctx, [], Some (Wrapf e (canceled_msg r n))))"
proof (induction sched arbitrary: i iErr)
  case Nil
  then show ?case by simp
next
  case (Cons s sched)
  show ?case
  proof (cases s)
    case DoneAtCheck
    then show ?thesis by auto
  next
    case DoneAtWait
    then show ?thesis by auto
  next
    case (Tick retry err d)
    show ?thesis
    proof (cases err)
      case None
      with Tick show ?thesis by simp
    next
      case (Some e)
      show ?thesis
      proof (cases retry)
        case False
        with Tick Some show ?thesis by auto
      next
        case True
        with Tick Some Cons.prems have "\<not> list_all retryable_failure sched" by simp
        from Cons.IH [OF this, of "i + 1" "Some e"] Tick Some True show ?thesis
          by (simp add: case_prod_beta)
      qed
    qed
  qed
qed

lemma notify_calls_append [simp]:
  "notify_calls (xs @ ys) = notify_calls xs @ notify_calls ys"
  by (induction xs rule: notify_calls.induct) simp_all

lemma retry_loop_calls:
  "\<forall>xs \<in> set (notify_calls (snd (retry_loop r ctx alerts sent cerr i iErr sched))). xs = sent"
proof (induction sched arbitrary: i iErr)
  case Nil
  show ?case by simp
next
  case (Cons s sched)
  show ?case
  proof (cases s)
    case (Tick retry err d)
    with Cons.IH show ?thesis
      by (cases err) (simp_all add: case_prod_beta)
  qed simp_all
qed

lemma retry_loop_count_done:
  "k < length sched \<Longrightarrow> sched ! k = DoneAtCheck \<Longrightarrow>
   length (notify_calls (snd (retry_loop r ctx alerts sent cerr i iErr sched))) \<le> k"
proof (induction sched arbitrary: i iErr k)
  case Nil
  then show ?case by simp
next
  case (Cons s sched)
  show ?case
  proof (cases k)
    case 0
    with Cons.prems show ?thesis by simp
  next
    case (Suc j)
    with Cons.prems have j: "j < length sched" "sched ! j = DoneAtCheck" by simp_all
    show ?thesis
    proof (cases s)
      case (Tick retry err d)
      show ?thesis
      proof (cases err)
        case None
        with Tick Suc show ?thesis by simp
      next
        case (Some e)
        from Cons.IH [OF j, of "i + 1" "Some e"] Tick Some Suc show ?thesis
          by (simp add: case_prod_beta)
      qed
    qed simp_all
  qed
qed

lemma retry_loop_count:
  "done_stays sched \<Longrightarrow>
   length (notify_calls (snd (retry_loop r ctx alerts sent cerr i iErr sched)))
     \<le> completed_before_done sched + 1"
proof (induction sched arbitrary: i iErr)
  case Nil
  show ?case by simp
next
  case (Cons s sched)
  show ?case
  proof (cases s)
    case (Tick retry err d)
    show ?thesis
    proof (cases err)
      case None
      with Tick show ?thesis by simp
    next
      case (Some e)
      show ?thesis
      proof (cases d)
        case False
        with Tick Cons.prems have "done_stays sched" by (cases sched) simp_all
        from Cons.IH [OF this, of "i + 1" "Some e"] Tick Some False show ?thesis
          by (simp add: case_prod_beta)
      next
        case True
        have "notify_calls (snd (retry_loop r ctx alerts sent cerr (i + 1) (Some e) sched)) = []"
        proof (cases sched)
          case Nil
          then show ?thesis by simp
        next
          case (Cons s' sched')
          with Tick True Cons.prems \<open>sched = s' # sched'\<close> have "s' = DoneAtCheck" by simp
          with Cons show ?thesis by simp
        qed
        with Tick Some True show ?thesis
          by (simp add: case_prod_beta)
      qed
    qed
  qed simp_all
qed

lemma notify_after_tick_block:
  assumes "\<forall>pre xs post. evs = pre @ EvNotify xs # post
             \<longrightarrow> (\<exists>pre'. pre = pre' @ [EvCheck False, EvTick])"
    and "w = [] \<or> (\<exists>i e. w = [EvWarn i e])"
  shows "\<forall>pre xs post. [EvCheck False, EvTick, EvNotify s] @ w @ evs = pre @ EvNotify xs # post
             \<longrightarrow> (\<exists>pre'. pre = pre' @ [EvCheck False, EvTick])"
proof (intro allI impI)
  fix pre xs post
  assume eq: "[EvCheck False, EvTick, EvNotify s] @ w @ evs = pre @ EvNotify xs # post"
  show "\<exists>pre'. pre = pre' @ [EvCheck False, EvTick]"
  proof (cases "length pre < 3")
    case True
    then consider "pre = []" | a where "pre = [a]" | a b where "pre = [a, b]"
      by (cases pre; cases "tl pre"; cases "tl (tl pre)") auto
    then show ?thesis
    proof cases
      case 1 with eq show ?thesis by simp
    next
      case 2 with eq show ?thesis by simp
    next
      case 3 with eq show ?thesis by simp
    qed
  next
    case False
    then obtain a b c pre3 where pre: "pre = a # b # c # pre3"
      by (cases pre; cases "tl pre"; cases "tl (tl pre)") auto
    with eq have abc: "a = EvCheck False" "b = EvTick" "c = EvNotify s"
      and rest: "w @ evs = pre3 @ EvNotify xs # post" by simp_all
    from assms(2) rest obtain pre4 where "evs = pre4 @ EvNotify xs # post"
      and p3: "pre3 = w @ pre4"
      by (cases pre3) auto
    with assms(1) obtain p' where "pre4 = p' @ [EvCheck False, EvTick]" by blast
    with pre p3 have "pre = (a # b # c # w @ p') @ [EvCheck False, EvTick]" by simp
    then show ?thesis by blast
  qed
qed

lemma retry_loop_notify_after_tick:
  "\<forall>pre xs post. snd (retry_loop r ctx alerts sent cerr i iErr sched) = pre @ EvNotify xs # post
      \<longrightarrow> (\<exists>pre'. pre = pre' @ [EvCheck False, EvTick])"
proof (induction sched arbitrary: i iErr)
  case Nil
  show ?case by simp
next
  case (Cons s sched)
  have nil: "\<forall>pre xs post. ([] :: event list) = pre @ EvNotify xs # post
      \<longrightarrow> (\<exists>pre'. pre = pre' @ [EvCheck False, EvTick])" by simp
  show ?case
  proof (cases s)
    case DoneAtCheck
    then show ?thesis by (simp add: Cons_eq_append_conv)
  next
    case DoneAtWait
    then show ?thesis by (simp add: Cons_eq_append_conv)
  next
    case (Tick retry err d)
    show ?thesis
    proof (cases "err = None \<or> \<not> retry")
      case True
      with Tick have "snd (retry_loop r ctx alerts sent cerr i iErr (s # sched))
          = [EvCheck False, EvTick, EvNotify sent] @ [] @ []"
        by (cases err) auto
      with notify_after_tick_block [OF nil, of "[]" sent] show ?thesis by simp
    next
      case False
      then obtain e where e: "err = Some e" "retry" by auto
      define w where "w = (if \<not> d \<and> (case iErr of None \<Rightarrow> True | Some p \<Rightarrow> Error e \<noteq> Error p)
                          then [EvWarn (i + 1) e] else [])"
      have w: "w = [] \<or> (\<exists>j x. w = [EvWarn j x])" by (simp add: w_def)
      from Tick e have "snd (retry_loop r ctx alerts sent cerr i iErr (s # sched))
          = [EvCheck False, EvTick, EvNotify sent] @ w
              @ snd (retry_loop r ctx alerts sent cerr (i + 1) (Some e) sched)"
        by (simp add: case_prod_beta w_def)
      with notify_after_tick_block [OF Cons.IH [of "i + 1" "Some e"] w, of sent]
      show ?thesis by simp
    qed
  qed
qed

lemma retry_loop_stops:
  "\<forall>pre ev post. snd (retry_loop r ctx alerts sent cerr i iErr sched) = pre @ ev # post
      \<longrightarrow> ev = EvCheck True \<or> ev = EvDone \<longrightarrow> post = []"
proof (induction sched arbitrary: i iErr)
  case Nil
  show ?case by simp
next
  case (Cons s sched)
  show ?case
  proof (cases s)
    case DoneAtCheck
    then show ?thesis by (auto simp: Cons_eq_append_conv)
  next
    case DoneAtWait
    then show ?thesis by (auto simp: Cons_eq_append_conv)
  next
    case (Tick retry err d)
    show ?thesis
    proof (cases "err = None \<or> \<not> retry")
      case True
      with Tick have "snd (retry_loop r ctx alerts sent cerr i iErr (s # sched))
          = [EvCheck False, EvTick, EvNotify sent]"
        by (cases err) auto
      then show ?thesis by (auto simp: Cons_eq_append_conv)
    next
      case False
      then obtain e where e: "err = Some e" "retry" by auto
      define w where "w = (if \<not> d \<and> (case iErr of None \<Rightarrow> True | Some p \<Rightarrow> Error e \<noteq> Error p)
                          then [EvWarn (i + 1) e] else [])"
      from Tick e have tr: "snd (retry_loop r ctx alerts sent cerr i iErr (s # sched))
          = [EvCheck False, EvTick, EvNotify sent] @ w
              @ snd (retry_loop r ctx alerts sent cerr (i + 1) (Some e) sched)"
        by (simp add: case_prod_beta w_def)
      show ?thesis
        unfolding tr using Cons.IH [of "i + 1" "Some e"]
        by (auto simp: Cons_eq_append_conv w_def split: if_splits)
    qed
  qed
qed


lemmas retry_eval = RetryStage_exec_def retry0_def retry1_def SendResolved_def FiringAlerts_def
  WithFiringAlerts_def ctx0_def WithRepeatInterval_def WithGroupKey_def background_def
  alert0_def resolved5_def

text \<open>
  C5. When \<open>SendResolved()\<close> is false: without \<open>FiringAlerts\<close> in the context the stage
  returns the error \<open>firing alerts missing\<close>; with an empty \<open>FiringAlerts\<close> it returns at
  once the context and the batch it was given with a nil error, and nothing has happened
  (no check, no tick, no call); otherwise every call of \<open>Notify\<close> is given the batch
  without its resolved alerts. When \<open>SendResolved()\<close> is true every call of \<open>Notify\<close> is
  given the whole batch.
\<close>

theorem RetryStage_prefilter:
  "(\<not> SendResolved (integration r) \<longrightarrow> FiringAlerts ctx = None \<longrightarrow>
      RetryStage_exec r ctx alerts cerr sched
        = (Some (ctx, [], Some (New ''firing alerts missing'')), [])) \<and>
   (\<not> SendResolved (integration r) \<longrightarrow> FiringAlerts ctx = Some [] \<longrightarrow>
      RetryStage_exec r ctx alerts cerr sched = (Some (ctx, alerts, None), [])) \<and>
   (\<not> SendResolved (integration r) \<longrightarrow> FiringAlerts ctx = Some (h # hs) \<longrightarrow>
      (\<forall>xs \<in> set (notify_calls (snd (RetryStage_exec r ctx alerts cerr sched))).
         xs = filter (\<lambda>a. Status a \<noteq> AlertResolved) alerts)) \<and>
   (SendResolved (integration r) \<longrightarrow>
      (\<forall>xs \<in> set (notify_calls (snd (RetryStage_exec r ctx alerts cerr sched))). xs = alerts))"
proof -
  have 1: "\<not> SendResolved (integration r) \<longrightarrow> FiringAlerts ctx = None \<longrightarrow>
      RetryStage_exec r ctx alerts cerr sched
        = (Some (ctx, [], Some (New ''firing alerts missing'')), [])"
    by (simp add: RetryStage_exec_def)
  have 2: "\<not> SendResolved (integration r) \<longrightarrow> FiringAlerts ctx = Some [] \<longrightarrow>
      RetryStage_exec r ctx alerts cerr sched = (Some (ctx, alerts, None), [])"
    by (simp add: RetryStage_exec_def)
  have 3: "\<not> SendResolved (integration r) \<longrightarrow> FiringAlerts ctx = Some (h # hs) \<longrightarrow>
      (\<forall>xs \<in> set (notify_calls (snd (RetryStage_exec r ctx alerts cerr sched))).
         xs = filter (\<lambda>a. Status a \<noteq> AlertResolved) alerts)"
    using retry_loop_calls [of r ctx alerts "filter (\<lambda>a. Status a \<noteq> AlertResolved) alerts"
        cerr 0 None sched]
    by (simp add: RetryStage_exec_def)
  have 4: "SendResolved (integration r) \<longrightarrow>
      (\<forall>xs \<in> set (notify_calls (snd (RetryStage_exec r ctx alerts cerr sched))). xs = alerts)"
    using retry_loop_calls [of r ctx alerts alerts cerr 0 None sched]
    by (simp add: RetryStage_exec_def)
  from 1 2 3 4 show ?thesis by (intro conjI)
qed

theorem RetryStage_prefilter_witness:
  "RetryStage_exec retry0 ctx0 [resolved5] DeadlineExceeded [Tick False None False]
     = (Some (ctx0, [], Some (New ''firing alerts missing'')), []) \<and>
   RetryStage_exec retry0 (WithFiringAlerts ctx0 []) [resolved5] DeadlineExceeded
       [Tick False None False]
     = (Some (WithFiringAlerts ctx0 [], [resolved5], None), []) \<and>
   notify_calls (snd (RetryStage_exec retry0 (WithFiringAlerts ctx0 [7]) [alert0, resolved5]
       DeadlineExceeded [Tick False None False])) = [[alert0]] \<and>
   notify_calls (snd (RetryStage_exec retry1 ctx0 [alert0, resolved5]
       DeadlineExceeded [Tick False None False])) = [[alert0, resolved5]]"
proof -
  have p0: "\<not> SendResolved (integration retry0)" and p1: "SendResolved (integration retry1)"
    by (simp_all add: retry0_def retry1_def SendResolved_def)
  have f0: "FiringAlerts ctx0 = None" and f1: "FiringAlerts (WithFiringAlerts ctx0 []) = Some []"
    and f2: "FiringAlerts (WithFiringAlerts ctx0 [7]) = Some (7 # [])"
    by (simp_all add: ctx0_def ctx_simps)
  note T = RetryStage_prefilter [where cerr = DeadlineExceeded and sched = "[Tick False None False]"]
  have 1: "RetryStage_exec retry0 ctx0 [resolved5] DeadlineExceeded [Tick False None False]
     = (Some (ctx0, [], Some (New ''firing alerts missing'')), [])"
    by (rule T [THEN conjunct1, rule_format, OF p0 f0])
  have 2: "RetryStage_exec retry0 (WithFiringAlerts ctx0 []) [resolved5] DeadlineExceeded
       [Tick False None False] = (Some (WithFiringAlerts ctx0 [], [resolved5], None), [])"
    by (rule T [THEN conjunct2, THEN conjunct1, rule_format, OF p0 f1])
  have len3: "length (notify_calls (snd (RetryStage_exec retry0 (WithFiringAlerts ctx0 [7])
       [alert0, resolved5] DeadlineExceeded [Tick False None False]))) = 1"
    by (simp add: retry_eval)
  have fl: "filter (\<lambda>a. Status a \<noteq> AlertResolved) [alert0, resolved5] = [alert0]"
    by (simp add: alert0_def resolved5_def)
  have all3: "\<forall>xs \<in> set (notify_calls (snd (RetryStage_exec retry0 (WithFiringAlerts ctx0 [7])
       [alert0, resolved5] DeadlineExceeded [Tick False None False]))). xs = [alert0]"
    using T [where r = retry0 and ctx = "WithFiringAlerts ctx0 [7]"
        and alerts = "[alert0, resolved5]" and h = 7 and hs = "[]",
        THEN conjunct2, THEN conjunct2, THEN conjunct1, rule_format, OF p0 f2]
    unfolding fl by blast
  from len3 all3 have 3: "notify_calls (snd (RetryStage_exec retry0 (WithFiringAlerts ctx0 [7])
       [alert0, resolved5] DeadlineExceeded [Tick False None False])) = [[alert0]]"
    by (cases "notify_calls (snd (RetryStage_exec retry0 (WithFiringAlerts ctx0 [7])
       [alert0, resolved5] DeadlineExceeded [Tick False None False]))") auto
  have len4: "length (notify_calls (snd (RetryStage_exec retry1 ctx0 [alert0, resolved5]
       DeadlineExceeded [Tick False None False]))) = 1"
    by (simp add: retry_eval)
  have all4: "\<forall>xs \<in> set (notify_calls (snd (RetryStage_exec retry1 ctx0 [alert0, resolved5]
       DeadlineExceeded [Tick False None False]))). xs = [alert0, resolved5]"
    using T [where r = retry1 and ctx = ctx0 and alerts = "[alert0, resolved5]",
        THEN conjunct2, THEN conjunct2, THEN conjunct2, rule_format, OF p1]
    by blast
  from len4 all4 have 4: "notify_calls (snd (RetryStage_exec retry1 ctx0 [alert0, resolved5]
       DeadlineExceeded [Tick False None False])) = [[alert0, resolved5]]"
    by (cases "notify_calls (snd (RetryStage_exec retry1 ctx0 [alert0, resolved5]
       DeadlineExceeded [Tick False None False]))") auto
  from 1 2 3 4 show ?thesis by (intro conjI)
qed

lemma RetryStage_exec_events:
  "snd (RetryStage_exec r ctx alerts cerr sched) = []
   \<or> (\<exists>sent. snd (RetryStage_exec r ctx alerts cerr sched)
         = snd (retry_loop r ctx alerts sent cerr 0 None sched))"
  by (auto simp: RetryStage_exec_def split: option.splits)

text \<open>
  C6. In every execution of \<open>RetryStage.exec\<close>, each call of \<open>Notify\<close> comes right after
  the reception of a tick, which comes right after a check that found the context not
  done; so the first call is never the first thing the loop does. Nothing follows a check
  that found the context done, nor a wait that ended on \<open>ctx.Done()\<close>: an iteration whose
  check finds the context done makes no call, and the iterations before it made at most
  one each. When a context that is done stays done, the number of calls is at most the
  number of calls completed before the context was done, plus one.
\<close>

theorem RetryStage_check_before_notify:
  "evs = snd (RetryStage_exec r ctx alerts cerr sched) \<Longrightarrow>
   (\<forall>pre xs post. evs = pre @ EvNotify xs # post
       \<longrightarrow> (\<exists>pre'. pre = pre' @ [EvCheck False, EvTick])) \<and>
   (\<forall>xs post. evs \<noteq> EvNotify xs # post) \<and>
   (\<forall>pre ev post. evs = pre @ ev # post \<longrightarrow> ev = EvCheck True \<or> ev = EvDone \<longrightarrow> post = []) \<and>
   (\<forall>k < length sched. sched ! k = DoneAtCheck \<longrightarrow> length (notify_calls evs) \<le> k) \<and>
   (done_stays sched \<longrightarrow> length (notify_calls evs) \<le> completed_before_done sched + 1)"
proof -
  assume evs: "evs = snd (RetryStage_exec r ctx alerts cerr sched)"
  from RetryStage_exec_events [of r ctx alerts cerr sched] evs
  consider "evs = []" | sent where "evs = snd (retry_loop r ctx alerts sent cerr 0 None sched)"
    by auto
  then have all: "(\<forall>pre xs post. evs = pre @ EvNotify xs # post
         \<longrightarrow> (\<exists>pre'. pre = pre' @ [EvCheck False, EvTick])) \<and>
      (\<forall>pre ev post. evs = pre @ ev # post \<longrightarrow> ev = EvCheck True \<or> ev = EvDone \<longrightarrow> post = []) \<and>
      (\<forall>k < length sched. sched ! k = DoneAtCheck \<longrightarrow> length (notify_calls evs) \<le> k) \<and>
      (done_stays sched \<longrightarrow> length (notify_calls evs) \<le> completed_before_done sched + 1)"
  proof cases
    case 1
    then show ?thesis by simp
  next
    case 2
    show ?thesis
      unfolding 2
      using retry_loop_notify_after_tick [of r ctx alerts sent cerr 0 None sched]
        retry_loop_stops [of r ctx alerts sent cerr 0 None sched]
        retry_loop_count_done [of _ sched r ctx alerts sent cerr 0 None]
        retry_loop_count [of sched r ctx alerts sent cerr 0 None]
      by blast
  qed
  then have A: "\<forall>pre xs post. evs = pre @ EvNotify xs # post
       \<longrightarrow> (\<exists>pre'. pre = pre' @ [EvCheck False, EvTick])"
    and C: "\<forall>pre ev post. evs = pre @ ev # post \<longrightarrow> ev = EvCheck True \<or> ev = EvDone \<longrightarrow> post = []"
    and D: "\<forall>k < length sched. sched ! k = DoneAtCheck \<longrightarrow> length (notify_calls evs) \<le> k"
    and E: "done_stays sched \<longrightarrow> length (notify_calls evs) \<le> completed_before_done sched + 1"
    by blast+
  have B: "\<forall>xs post. evs \<noteq> EvNotify xs # post"
  proof (intro allI notI)
    fix xs post assume "evs = EvNotify xs # post"
    then have "evs = [] @ EvNotify xs # post" by simp
    with A obtain pre' where "[] = pre' @ [EvCheck False, EvTick]" by blast
    then show False by simp
  qed
  from A B C D E show ?thesis by (intro conjI)
qed

lemma cancel_run:
  "RetryStage_exec retry1 ctx0 [alert0] DeadlineExceeded sched_cancel =
     (Some (ctx0, [], Some (Wrapf ConnReset
        ''ops/webhook[0]: notify retry canceled after 3 attempts'')),
      [EvCheck False, EvTick, EvNotify [alert0], EvWarn 1 ConnReset,
       EvCheck False, EvTick, EvNotify [alert0], EvCheck True])"
  by (simp add: RetryStage_exec_def retry1_def SendResolved_def sched_cancel_def canceled_msg_def
      String_def dec_int_def dec.simps digit_def)

theorem RetryStage_check_before_notify_witness:
  "done_stays sched_cancel \<and> completed_before_done sched_cancel = 1 \<and>
   length (notify_calls (snd (RetryStage_exec retry1 ctx0 [alert0] DeadlineExceeded sched_cancel)))
     \<le> completed_before_done sched_cancel + 1 \<and>
   length (notify_calls (snd (RetryStage_exec retry1 ctx0 [alert0] DeadlineExceeded sched_cancel)))
     \<le> 2 \<and>
   notify_calls (snd (RetryStage_exec retry1 ctx0 [alert0] DeadlineExceeded sched_cancel))
     = [[alert0], [alert0]]"
proof -
  have ds: "done_stays sched_cancel" and cb: "completed_before_done sched_cancel = 1"
    and k: "2 < length sched_cancel" and at: "sched_cancel ! 2 = DoneAtCheck"
    by (simp_all add: sched_cancel_def)
  note T = RetryStage_check_before_notify [OF refl, of retry1 ctx0 "[alert0]" DeadlineExceeded
      sched_cancel]
  have 1: "length (notify_calls (snd (RetryStage_exec retry1 ctx0 [alert0] DeadlineExceeded
      sched_cancel))) \<le> completed_before_done sched_cancel + 1"
    by (rule T [THEN conjunct2, THEN conjunct2, THEN conjunct2, THEN conjunct2, rule_format, OF ds])
  have 2: "length (notify_calls (snd (RetryStage_exec retry1 ctx0 [alert0] DeadlineExceeded
      sched_cancel))) \<le> 2"
    by (rule T [THEN conjunct2, THEN conjunct2, THEN conjunct2, THEN conjunct1, rule_format,
          OF k at])
  have 3: "notify_calls (snd (RetryStage_exec retry1 ctx0 [alert0] DeadlineExceeded sched_cancel))
     = [[alert0], [alert0]]"
    unfolding cancel_run by simp
  from ds cb 1 2 3 show ?thesis by (intro conjI)
qed



section \<open>DedupStage followed by RetryStage\<close>

lemma retry_loop_not_plain:
  "fst (retry_loop r ctx alerts sent cerr i iErr sched) \<noteq> Some (c, as, Some (New m))"
proof (cases "list_all retryable_failure sched")
  case True
  then show ?thesis by (simp add: retry_loop_exhausted)
next
  case False
  from retry_loop_returns [OF False, of r ctx alerts sent cerr i iErr] show ?thesis by auto
qed

lemma RetryStage_exec_finds_firing:
  "FiringAlerts ctx \<noteq> None \<Longrightarrow>
   fst (RetryStage_exec r ctx alerts cerr sched) \<noteq> Some (ctx, [], Some (New ''firing alerts missing''))"
  using retry_loop_not_plain
  by (auto simp: RetryStage_exec_def split: option.splits)

text \<open>
  C10. Whenever \<open>DedupStage.Exec\<close> returns a nil error, which it does exactly when
  \<open>GroupKey\<close> and \<open>RepeatInterval\<close> are in the context it was given, the context it
  returns holds both \<open>FiringAlerts\<close> and \<open>ResolvedAlerts\<close>, whatever the batch and
  whatever the store answered; so a \<open>RetryStage\<close> run on that context never fails with
  \<open>firing alerts missing\<close>.
\<close>

theorem DedupStage_installs_hash_lists:
  "snd (snd (fst (DedupStage_Exec n ctx alerts c))) = None \<Longrightarrow>
   ctx' = fst (fst (DedupStage_Exec n ctx alerts c)) \<Longrightarrow>
   GroupKey ctx \<noteq> None \<and> RepeatInterval ctx \<noteq> None \<and>
   (\<exists>f. FiringAlerts ctx' = Some f) \<and> (\<exists>rs. ResolvedAlerts ctx' = Some rs) \<and>
   (\<forall>r as cerr sched.
      fst (RetryStage_exec r ctx' as cerr sched) \<noteq> Some (ctx', [], Some (New ''firing alerts missing'')))"
proof -
  assume ok: "snd (snd (fst (DedupStage_Exec n ctx alerts c))) = None"
    and ctx': "ctx' = fst (fst (DedupStage_Exec n ctx alerts c))"
  from ok have keys: "GroupKey ctx \<noteq> None" "RepeatInterval ctx \<noteq> None"
    unfolding DedupStage_Exec_hard_error by simp_all
  then obtain gkey ri where g: "GroupKey ctx = Some gkey" and t: "RepeatInterval ctx = Some ri"
    by auto
  from DedupStage_Exec_ok(3,4) [OF g t, of n alerts c] ctx'
  have f: "FiringAlerts ctx' \<noteq> None" and rs: "ResolvedAlerts ctx' \<noteq> None" by simp_all
  from f have nomiss: "\<forall>r as cerr sched.
      fst (RetryStage_exec r ctx' as cerr sched) \<noteq> Some (ctx', [], Some (New ''firing alerts missing''))"
    using RetryStage_exec_finds_firing by blast
  from keys f rs nomiss show ?thesis by auto
qed

theorem DedupStage_installs_hash_lists_witness:
  "FiringAlerts (fst (fst (DedupStage_Exec down0 ctx0 [] ([], [])))) = Some [] \<and>
   ResolvedAlerts (fst (fst (DedupStage_Exec down0 ctx0 [resolved5, alert0] ([], [])))) = Some [7] \<and>
   fst (RetryStage_exec retry0 (fst (fst (DedupStage_Exec down0 ctx0 [] ([], []))))
          [] DeadlineExceeded [DoneAtCheck])
     = Some (fst (fst (DedupStage_Exec down0 ctx0 [] ([], []))), [], None)"
proof -
  have e1: "DedupStage_Exec down0 ctx0 [] ([], [])
      = ((WithResolvedAlerts (WithFiringAlerts ctx0 []) [], [], None), ([], []))"
    by (simp add: DedupStage_Exec_def ctx0_keys)
  have ok1: "snd (snd (fst (DedupStage_Exec down0 ctx0 [] ([], [])))) = None"
    unfolding e1 by simp
  have ok2: "snd (snd (fst (DedupStage_Exec down0 ctx0 [resolved5, alert0] ([], [])))) = None"
    using DedupStage_Exec_ok(1) [OF ctx0_keys] .
  note T1 = DedupStage_installs_hash_lists [OF ok1 refl]
  note T2 = DedupStage_installs_hash_lists [OF ok2 refl]
  from T1 obtain f where f: "FiringAlerts (fst (fst (DedupStage_Exec down0 ctx0 [] ([], [])))) = Some f"
    by blast
  then have 1: "FiringAlerts (fst (fst (DedupStage_Exec down0 ctx0 [] ([], [])))) = Some []"
    unfolding e1 by (simp add: ctx_simps)
  from T2 obtain rs where "ResolvedAlerts (fst (fst (DedupStage_Exec down0 ctx0
      [resolved5, alert0] ([], [])))) = Some rs" by blast
  then have 2: "ResolvedAlerts (fst (fst (DedupStage_Exec down0 ctx0 [resolved5, alert0] ([], []))))
      = Some [7]"
    by (simp add: eval_defs key0 ctx_simps)
  from T1 have "fst (RetryStage_exec retry0 (fst (fst (DedupStage_Exec down0 ctx0 [] ([], []))))
          [] DeadlineExceeded [DoneAtCheck])
     \<noteq> Some (fst (fst (DedupStage_Exec down0 ctx0 [] ([], []))), [],
          Some (New ''firing alerts missing''))" by blast
  then have 3: "fst (RetryStage_exec retry0 (fst (fst (DedupStage_Exec down0 ctx0 [] ([], []))))
          [] DeadlineExceeded [DoneAtCheck])
     = Some (fst (fst (DedupStage_Exec down0 ctx0 [] ([], []))), [], None)"
    unfolding e1 by (simp add: RetryStage_exec_def retry0_def SendResolved_def ctx_simps)
  from 1 2 3 show ?thesis by (intro conjI)
qed

end
